theory Spec2Isabelle
  imports Complex_Main "HOL-Library.Word"
begin

unbundle bit_operations_syntax

section \<open>AudioEncrypt: the payload codec of the page script\<close>

text \<open>
  The embedding follows the inline script of the page (the version that encrypts with
  AES-GCM and frames a 36-byte header in front of the ciphertext). Bytes of typed arrays
  are \<open>8 word\<close>, JavaScript strings are lists of UTF-16 code units (\<open>16 word\<close>),
  \<open>Float32Array\<close> elements are kept as their 32-bit patterns, and JavaScript numbers
  that hold lengths, indices and the sample rate are natural numbers (the script only
  ever computes with non-negative integers far below \<open>2 ^ 53\<close>, where doubles are exact).
  Every \<open>throw\<close> of the script is a value of \<open>error\<close>.
\<close>

type_synonym byte = "8 word"
type_synonym js_string = "16 word list"
type_synonym float32 = "32 word"

datatype error =
    SecretKeyRequired        \<comment> \<open>\<open>'Secret key is required'\<close>\<close>
  | PasswordTooWeak          \<comment> \<open>\<open>'Password is too weak. ...'\<close>\<close>
  | HeaderTooShort           \<comment> \<open>\<open>'Corrupted data: Image data too short to contain header.'\<close>\<close>
  | CiphertextLengthExceeds  \<comment> \<open>\<open>'Corrupted data: Declared ciphertext length exceeds available data.'\<close>\<close>
  | DecryptionFailed         \<comment> \<open>\<open>'Decryption failed - incorrect key or corrupted data.'\<close>\<close>
  | InvalidSampleRate nat    \<comment> \<open>\<open>'Invalid sample rate (..Hz) in image. ...'\<close>\<close>
  | RangeError               \<comment> \<open>thrown by typed arrays and \<open>DataView\<close>\<close>
  | IndexSizeError           \<comment> \<open>thrown by the canvas for an empty image\<close>
  | NotSupportedError        \<comment> \<open>thrown by \<open>createBuffer\<close>\<close>

text \<open>The error taxonomy of the design: which thrown errors count as which kind.\<close>

datatype error_kind = InputError | FormatError | AuthenticationFailure | ResourceError

fun kind_of :: "error \<Rightarrow> error_kind" where
  "kind_of SecretKeyRequired = InputError"
| "kind_of PasswordTooWeak = InputError"
| "kind_of HeaderTooShort = FormatError"
| "kind_of CiphertextLengthExceeds = FormatError"
| "kind_of (InvalidSampleRate r) = FormatError"
| "kind_of DecryptionFailed = AuthenticationFailure"
| "kind_of RangeError = ResourceError"
| "kind_of IndexSizeError = ResourceError"
| "kind_of NotSupportedError = ResourceError"

subsection \<open>Constants\<close>

definition SALT_LENGTH :: nat where "SALT_LENGTH = 16"
definition IV_LENGTH :: nat where "IV_LENGTH = 12"
definition CIPHERTEXT_LENGTH_BYTES :: nat where "CIPHERTEXT_LENGTH_BYTES = 4"
definition SAMPLE_RATE_BYTES :: nat where "SAMPLE_RATE_BYTES = 4"
definition HEADER_LENGTH :: nat where
  "HEADER_LENGTH = SALT_LENGTH + IV_LENGTH + CIPHERTEXT_LENGTH_BYTES + SAMPLE_RATE_BYTES"
definition BYTES_PER_PIXEL :: nat where "BYTES_PER_PIXEL = 3"

subsection \<open>Password strength\<close>

text \<open>
  The four regular expressions of \<open>checkPasswordStrength\<close>, tested without the
  \<open>u\<close> flag, so each looks for one UTF-16 code unit in (or outside) the ASCII ranges.
\<close>

definition is_lower :: "16 word \<Rightarrow> bool" where
  "is_lower c \<longleftrightarrow> 0x61 \<le> c \<and> c \<le> 0x7A"

definition is_upper :: "16 word \<Rightarrow> bool" where
  "is_upper c \<longleftrightarrow> 0x41 \<le> c \<and> c \<le> 0x5A"

definition is_digit :: "16 word \<Rightarrow> bool" where
  "is_digit c \<longleftrightarrow> 0x30 \<le> c \<and> c \<le> 0x39"

definition test_lower :: "js_string \<Rightarrow> bool" where
  "test_lower password = list_ex is_lower password"

definition test_upper :: "js_string \<Rightarrow> bool" where
  "test_upper password = list_ex is_upper password"

definition test_digit :: "js_string \<Rightarrow> bool" where
  "test_digit password = list_ex is_digit password"

definition test_other :: "js_string \<Rightarrow> bool" where
  "test_other password = list_ex (\<lambda>c. \<not> (is_upper c \<or> is_lower c \<or> is_digit c)) password"

record strength =
  score :: nat
  text_label :: string
  class_name :: string

definition bump :: "bool \<Rightarrow> nat \<Rightarrow> nat" where
  "bump b s = (if b then s + 1 else s)"

definition checkPasswordStrength :: "js_string \<Rightarrow> strength" where
  "checkPasswordStrength password =
    (if length password < 6
     then \<lparr>score = 0, text_label = ''Too Short'', class_name = ''weak''\<rparr>
     else
       let s0 = 1;
           s1 = bump (length password \<ge> 12) s0;
           s2 = bump (test_lower password) s1;
           s3 = bump (test_upper password) s2;
           s4 = bump (test_digit password) s3;
           s5 = bump (test_other password) s4
       in if s5 < 2 then \<lparr>score = s5, text_label = ''Weak'', class_name = ''weak''\<rparr>
          else if s5 < 5 then \<lparr>score = s5, text_label = ''Medium'', class_name = ''medium''\<rparr>
          else \<lparr>score = s5, text_label = ''Strong'', class_name = ''strong''\<rparr>)"

text \<open>
  \<open>getUserSecretKey\<close> reads the key field of the page and trims it. The field's value
  is the argument here. \<open>String.prototype.trim\<close> removes white space and line
  terminators from both ends.
\<close>

definition is_js_space :: "16 word \<Rightarrow> bool" where
  "is_js_space c \<longleftrightarrow>
     c \<in> set [0x0009, 0x000A, 0x000B, 0x000C, 0x000D, 0x0020, 0x00A0, 0x1680,
              0x2028, 0x2029, 0x202F, 0x205F, 0x3000, 0xFEFF]
     \<or> (0x2000 \<le> c \<and> c \<le> 0x200A)"

definition js_trim :: "js_string \<Rightarrow> js_string" where
  "js_trim s = rev (dropWhile is_js_space (rev (dropWhile is_js_space s)))"

definition getUserSecretKey :: "js_string \<Rightarrow> js_string" where
  "getUserSecretKey field_value = js_trim field_value"

text \<open>ASCII text as a JavaScript string, for concrete passphrases.\<close>

definition js :: "string \<Rightarrow> js_string" where
  "js s = map (\<lambda>c. of_nat (of_char c)) s"

subsection \<open>The platform\<close>

text \<open>
  The script calls the browser for key derivation (\<open>crypto.subtle.importKey\<close> and
  \<open>deriveKey\<close> with PBKDF2), for AES-GCM (\<open>crypto.subtle.encrypt\<close> and
  \<open>decrypt\<close>, the latter rejecting with an exception), for the UTF-8 encoding of the
  passphrase (\<open>TextEncoder\<close>) and for audio buffers, whose admissible sample rates
  depend on the browser. None of that is code of the script: it is a parameter of the
  model. The random salt and IV (\<open>crypto.getRandomValues\<close>) are arguments of the
  encrypting function.
\<close>

record 'k platform =
  text_encode :: "js_string \<Rightarrow> byte list"
  pbkdf2_sha256 :: "byte list \<Rightarrow> byte list \<Rightarrow> nat \<Rightarrow> 'k"
  aes_gcm_encrypt :: "'k \<Rightarrow> byte list \<Rightarrow> byte list \<Rightarrow> byte list"
  aes_gcm_decrypt :: "'k \<Rightarrow> byte list \<Rightarrow> byte list \<Rightarrow> byte list option"
  rate_supported :: "nat \<Rightarrow> bool"

definition deriveKey :: "'k platform \<Rightarrow> js_string \<Rightarrow> byte list \<Rightarrow> 'k" where
  "deriveKey W passphrase salt =
     (let keyMaterial = text_encode W passphrase
      in pbkdf2_sha256 W keyMaterial salt 100000)"

subsection \<open>Typed arrays and data views\<close>

text \<open>\<open>target.set(source, offset)\<close>: throws when the source does not fit.\<close>

definition ta_set :: "byte list \<Rightarrow> byte list \<Rightarrow> nat \<Rightarrow> error + byte list" where
  "ta_set target source offset =
     (if length target < offset + length source then Inl RangeError
      else Inr (take offset target @ source @ drop (offset + length source) target))"

text \<open>\<open>a.slice(start, end)\<close> for \<open>0 \<le> start\<close>: both ends are clamped to the length.\<close>

definition slice :: "byte list \<Rightarrow> nat \<Rightarrow> nat \<Rightarrow> byte list" where
  "slice a start end = take (end - start) (drop start a)"

text \<open>
  \<open>DataView.setUint32(byteOffset, value, false)\<close> converts the number to an unsigned
  32-bit integer (modulo \<open>2 ^ 32\<close>) and stores it most significant byte first;
  \<open>getUint32(byteOffset, false)\<close> reads it back.
\<close>

definition uint32_bytes :: "32 word \<Rightarrow> byte list" where
  "uint32_bytes x = [ucast (drop_bit 24 x), ucast (drop_bit 16 x), ucast (drop_bit 8 x), ucast x]"

definition uint32_of :: "byte \<Rightarrow> byte \<Rightarrow> byte \<Rightarrow> byte \<Rightarrow> 32 word" where
  "uint32_of b0 b1 b2 b3 =
     push_bit 24 (ucast b0) OR push_bit 16 (ucast b1) OR push_bit 8 (ucast b2) OR ucast b3"

definition setUint32 :: "byte list \<Rightarrow> nat \<Rightarrow> nat \<Rightarrow> error + byte list" where
  "setUint32 view byteOffset v =
     (if length view < byteOffset + 4 then Inl RangeError
      else Inr (take byteOffset view @ uint32_bytes (of_nat v) @ drop (byteOffset + 4) view))"

definition getUint32 :: "byte list \<Rightarrow> nat \<Rightarrow> error + nat" where
  "getUint32 view byteOffset =
     (if length view < byteOffset + 4 then Inl RangeError
      else Inr (unat (uint32_of (view ! byteOffset) (view ! (byteOffset + 1))
                        (view ! (byteOffset + 2)) (view ! (byteOffset + 3)))))"

text \<open>
  The bytes of a \<open>Float32Array\<close>'s buffer and the \<open>Float32Array\<close> over a buffer, in
  the byte order of the machine (least significant byte first on every platform that
  runs a browser). The constructor throws when the byte length is no multiple of 4.
\<close>

definition float32_le :: "float32 \<Rightarrow> byte list" where
  "float32_le x = [ucast x, ucast (drop_bit 8 x), ucast (drop_bit 16 x), ucast (drop_bit 24 x)]"

definition buffer_of :: "float32 list \<Rightarrow> byte list" where
  "buffer_of channelData = concat (map float32_le channelData)"

fun floats_of :: "byte list \<Rightarrow> float32 list" where
  "floats_of (b0 # b1 # b2 # b3 # rest) = uint32_of b3 b2 b1 b0 # floats_of rest"
| "floats_of _ = []"

definition new_Float32Array :: "byte list \<Rightarrow> error + float32 list" where
  "new_Float32Array buffer =
     (if length buffer mod 4 \<noteq> 0 then Inl RangeError else Inr (floats_of buffer))"

subsection \<open>Audio buffers\<close>

text \<open>Only channel 0 is ever read or written by the script.\<close>

record audio_buffer =
  sampleRate :: nat
  channelData :: "float32 list"

text \<open>
  \<open>createBuffer(1, length, sampleRate)\<close> throws for a length of zero and for a rate
  the browser does not support; \<open>copyToChannel(source, 0)\<close> overwrites the frames.
\<close>

definition createBuffer :: "'k platform \<Rightarrow> nat \<Rightarrow> nat \<Rightarrow> error + audio_buffer" where
  "createBuffer W len rate =
     (if len = 0 \<or> \<not> rate_supported W rate then Inl NotSupportedError
      else Inr \<lparr>sampleRate = rate, channelData = replicate len 0\<rparr>)"

definition copyToChannel :: "audio_buffer \<Rightarrow> float32 list \<Rightarrow> audio_buffer" where
  "copyToChannel buf source =
     buf\<lparr>channelData := take (length (channelData buf)) source
                          @ drop (length source) (channelData buf)\<rparr>"

subsection \<open>Assembling the payload (in \<open>encryptAudioToImage\<close>)\<close>

definition assemblePayload :: "byte list \<Rightarrow> byte list \<Rightarrow> byte list \<Rightarrow> nat \<Rightarrow> error + byte list" where
  "assemblePayload salt iv cipherBytes originalSampleRate =
     (case ta_set (replicate HEADER_LENGTH 0) salt 0 of Inl e \<Rightarrow> Inl e | Inr header1 \<Rightarrow>
     (case ta_set header1 iv SALT_LENGTH of Inl e \<Rightarrow> Inl e | Inr header2 \<Rightarrow>
     (case setUint32 header2 (SALT_LENGTH + IV_LENGTH) (length cipherBytes) of
        Inl e \<Rightarrow> Inl e | Inr header3 \<Rightarrow>
     (case setUint32 header3 (SALT_LENGTH + IV_LENGTH + CIPHERTEXT_LENGTH_BYTES)
             originalSampleRate of
        Inl e \<Rightarrow> Inl e | Inr header \<Rightarrow>
      let totalDataLength = length header + length cipherBytes in
     (case ta_set (replicate totalDataLength 0) header 0 of Inl e \<Rightarrow> Inl e | Inr fullPayload1 \<Rightarrow>
      ta_set fullPayload1 cipherBytes (length header))))))"

subsection \<open>Packing the payload into pixels (in \<open>encryptAudioToImage\<close>)\<close>

record image_data =
  width :: nat
  height :: nat
  data :: "byte list"

text \<open>
  \<open>createImageData(w, h)\<close> throws for an empty image (this is also where a width of
  zero ends, whose height the script computes as \<open>NaN\<close>); otherwise every pixel starts
  as transparent black.
\<close>

definition createImageData :: "nat \<Rightarrow> nat \<Rightarrow> error + image_data" where
  "createImageData sw sh =
     (if sw = 0 \<or> sh = 0 then Inl IndexSizeError
      else Inr \<lparr>width = sw, height = sh, data = replicate (4 * sw * sh) 0\<rparr>)"

text \<open>
  One channel of one pixel: the next payload byte, or zero when the payload is used up.
  A store beyond the end of a typed array does nothing, as \<open>list_update\<close> does.
\<close>

definition put_channel :: "byte list \<Rightarrow> byte list \<Rightarrow> nat \<Rightarrow> nat \<Rightarrow> byte list \<times> nat" where
  "put_channel fullPayload d j payloadIdx =
     (if payloadIdx < length fullPayload then (d[j := fullPayload ! payloadIdx], payloadIdx + 1)
      else (d[j := 0], payloadIdx))"

function pack_loop :: "byte list \<Rightarrow> nat \<Rightarrow> byte list \<Rightarrow> nat \<Rightarrow> nat \<Rightarrow> byte list" where
  "pack_loop fullPayload numPixelsRequired d i payloadIdx =
     (if i < length d then
        let r = put_channel fullPayload d i payloadIdx;
            g = put_channel fullPayload (fst r) (i + 1) (snd r);
            b = put_channel fullPayload (fst g) (i + 2) (snd g);
            d' = (fst b)[i + 3 := 255]
        in if snd b \<ge> length fullPayload \<and> int (i div 4) \<ge> int numPixelsRequired - 1 then d'
           else pack_loop fullPayload numPixelsRequired d' (i + 4) (snd b)
      else d)"
  by pat_completeness auto
termination
  by (relation "measure (\<lambda>(p, n, d, i, k). length d - i)")
     (auto simp: put_channel_def Let_def)

declare pack_loop.simps [simp del]

definition packPixels :: "byte list \<Rightarrow> error + image_data" where
  "packPixels fullPayload =
     (let totalDataLength = length fullPayload;
          numPixelsRequired = nat \<lceil>real totalDataLength / real BYTES_PER_PIXEL\<rceil>;
          w = nat \<lceil>sqrt (real numPixelsRequired)\<rceil>;
          h = nat \<lceil>real numPixelsRequired / real w\<rceil>
      in case createImageData w h of Inl e \<Rightarrow> Inl e | Inr imgData \<Rightarrow>
           Inr (imgData\<lparr>data := pack_loop fullPayload numPixelsRequired (data imgData) 0 0\<rparr>))"

subsection \<open>\<open>encryptAudioToImage\<close>\<close>

text \<open>
  The salt and the IV are the bytes \<open>crypto.getRandomValues\<close> returns for arrays of
  \<open>SALT_LENGTH\<close> and \<open>IV_LENGTH\<close> bytes. The returned canvas is its image data;
  attaching it to the page is left out.
\<close>

definition encryptAudioToImage ::
  "'k platform \<Rightarrow> js_string \<Rightarrow> byte list \<Rightarrow> byte list \<Rightarrow> audio_buffer \<Rightarrow> error + image_data" where
  "encryptAudioToImage W field_value salt iv audioBuffer =
     (let pass = getUserSecretKey field_value in
      if pass = [] then Inl SecretKeyRequired
      else if score (checkPasswordStrength pass) < 2 then Inl PasswordTooWeak
      else
        let payloadRaw = buffer_of (channelData audioBuffer);
            originalSampleRate = sampleRate audioBuffer;
            key = deriveKey W pass salt;
            cipherBytes = aes_gcm_encrypt W key iv payloadRaw
        in case assemblePayload salt iv cipherBytes originalSampleRate of
             Inl e \<Rightarrow> Inl e
           | Inr fullPayload \<Rightarrow> packPixels fullPayload)"

subsection \<open>Unpacking the pixels (in \<open>decryptImageToAudio\<close>)\<close>

text \<open>Reading a typed array beyond its end gives \<open>undefined\<close>, stored as 0.\<close>

definition rd :: "byte list \<Rightarrow> nat \<Rightarrow> byte" where
  "rd a i = (if i < length a then a ! i else 0)"

function unpack_loop :: "byte list \<Rightarrow> nat \<Rightarrow> byte list \<Rightarrow> nat \<Rightarrow> nat \<Rightarrow> byte list" where
  "unpack_loop pixelData maxPossibleDataBytes allExtractedBytes i extractedByteIdx =
     (if i < length pixelData \<and> extractedByteIdx < maxPossibleDataBytes then
        let a1 = allExtractedBytes[extractedByteIdx := rd pixelData i];
            k1 = extractedByteIdx + 1;
            a2 = (if k1 < maxPossibleDataBytes then a1[k1 := rd pixelData (i + 1)] else a1);
            k2 = (if k1 < maxPossibleDataBytes then k1 + 1 else k1);
            a3 = (if k2 < maxPossibleDataBytes then a2[k2 := rd pixelData (i + 2)] else a2);
            k3 = (if k2 < maxPossibleDataBytes then k2 + 1 else k2)
        in unpack_loop pixelData maxPossibleDataBytes a3 (i + 4) k3
      else allExtractedBytes)"
  by pat_completeness auto
termination
  by (relation "measure (\<lambda>(p, m, a, i, k). length p - i)") auto

declare unpack_loop.simps [simp del]

definition unpackPixels :: "byte list \<Rightarrow> byte list" where
  "unpackPixels pixelData =
     (let maxPossibleDataBytes = (length pixelData div 4) * BYTES_PER_PIXEL
      in unpack_loop pixelData maxPossibleDataBytes (replicate maxPossibleDataBytes 0) 0 0)"

subsection \<open>Parsing the header (in \<open>decryptImageToAudio\<close>)\<close>

record parsed =
  p_salt :: "byte list"
  p_iv :: "byte list"
  p_ciphertextLength :: nat
  p_sampleRate :: nat
  p_cipher :: "byte list"

definition parsePayload :: "byte list \<Rightarrow> error + parsed" where
  "parsePayload allExtractedBytes =
     (if length allExtractedBytes < HEADER_LENGTH then Inl HeaderTooShort
      else
        let salt = slice allExtractedBytes 0 SALT_LENGTH;
            iv = slice allExtractedBytes SALT_LENGTH (SALT_LENGTH + IV_LENGTH)
        in case getUint32 allExtractedBytes (SALT_LENGTH + IV_LENGTH) of
             Inl e \<Rightarrow> Inl e | Inr ciphertextLength \<Rightarrow>
          (case getUint32 allExtractedBytes (SALT_LENGTH + IV_LENGTH + CIPHERTEXT_LENGTH_BYTES) of
             Inl e \<Rightarrow> Inl e | Inr rate \<Rightarrow>
           let ciphertextOffset = HEADER_LENGTH;
               ciphertextEndOffset = ciphertextOffset + ciphertextLength
           in if ciphertextEndOffset > length allExtractedBytes then Inl CiphertextLengthExceeds
              else Inr \<lparr>p_salt = salt, p_iv = iv, p_ciphertextLength = ciphertextLength,
                        p_sampleRate = rate,
                        p_cipher = slice allExtractedBytes ciphertextOffset ciphertextEndOffset\<rparr>))"

subsection \<open>\<open>decryptImageToAudio\<close>\<close>

text \<open>
  \<open>getImageData(0, 0, canvas.width, canvas.height)\<close> throws for an empty canvas. A
  canvas is modelled by the image data put on it: what \<open>putImageData\<close> stores is what
  \<open>getImageData\<close> returns, which browsers guarantee for opaque pixels and for
  transparent black, the only pixels the script writes. The shared playback context and
  \<open>lastDecryptedBuffer\<close>, which the function also sets, take no part in its result and
  are left out.
\<close>

definition getImageData :: "image_data \<Rightarrow> error + byte list" where
  "getImageData canvas =
     (if width canvas = 0 \<or> height canvas = 0 then Inl IndexSizeError else Inr (data canvas))"

definition decryptImageToAudio ::
  "'k platform \<Rightarrow> js_string \<Rightarrow> image_data \<Rightarrow> error + audio_buffer" where
  "decryptImageToAudio W field_value canvas =
     (let pass = getUserSecretKey field_value in
      if pass = [] then Inl SecretKeyRequired
      else
        case getImageData canvas of Inl e \<Rightarrow> Inl e | Inr pixelData \<Rightarrow>
       (case parsePayload (unpackPixels pixelData) of Inl e \<Rightarrow> Inl e | Inr hdr \<Rightarrow>
        let key = deriveKey W pass (p_salt hdr) in
       (case aes_gcm_decrypt W key (p_iv hdr) (p_cipher hdr) of
          None \<Rightarrow> Inl DecryptionFailed
        | Some rawDecryptedAudioData \<Rightarrow>
           (case new_Float32Array rawDecryptedAudioData of Inl e \<Rightarrow> Inl e | Inr floatArr \<Rightarrow>
            if p_sampleRate hdr \<le> 0 \<or> p_sampleRate hdr > 192000
            then Inl (InvalidSampleRate (p_sampleRate hdr))
            else
             (case createBuffer W (length floatArr) (p_sampleRate hdr) of
                Inl e \<Rightarrow> Inl e
              | Inr buf \<Rightarrow> Inr (copyToChannel buf floatArr))))))"

subsection \<open>What the packing loop leaves in the image\<close>

text \<open>
  The value at index \<open>j\<close> of the image data inside the pixels the loop writes: alpha is
  255, and channel \<open>c < 3\<close> of pixel \<open>p\<close> holds payload byte \<open>3 * p + c\<close>, or zero
  beyond the payload. \<open>write_pixel\<close> is one pass of the loop body over pixel \<open>p\<close>.
\<close>

definition pixel_value :: "byte list \<Rightarrow> nat \<Rightarrow> byte" where
  "pixel_value P j =
     (if j mod 4 = 3 then 255
      else if 3 * (j div 4) + j mod 4 < length P then P ! (3 * (j div 4) + j mod 4) else 0)"

definition write_pixel :: "byte list \<Rightarrow> byte list \<Rightarrow> nat \<Rightarrow> byte list" where
  "write_pixel P d p =
     d[4 * p := P ! (3 * p),
       4 * p + 1 := (if 3 * p + 1 < length P then P ! (3 * p + 1) else 0),
       4 * p + 2 := (if 3 * p + 2 < length P then P ! (3 * p + 2) else 0),
       4 * p + 3 := 255]"

subsection \<open>Reading a big-endian field\<close>

text \<open>
  The number a sequence of bytes denotes as an unsigned big-endian integer, written
  independently of the data view: each further byte multiplies what came before by 256.
\<close>

definition be_value :: "byte list \<Rightarrow> nat" where
  "be_value bs = foldl (\<lambda>a b. 256 * a + unat b) 0 bs"

subsection \<open>A worked example\<close>

text \<open>
  A payload as \<open>encryptAudioToImage\<close> assembles it for one audio sample: 16 salt
  bytes, 12 IV bytes, the ciphertext length 20 and the sample rate 44100 (both most
  significant byte first), and 20 ciphertext bytes (4 of data, 16 of tag). It needs 19
  pixels; the image is 5 by 4, and its last pixel is never written.
\<close>

definition example_payload :: "byte list" where
  "example_payload =
     [1, 2, 3, 4, 5, 6, 7, 8, 9, 10, 11, 12, 13, 14, 15, 16,
      21, 22, 23, 24, 25, 26, 27, 28, 29, 30, 31, 32,
      0, 0, 0, 20,
      0, 0, 172, 68,
      101, 102, 103, 104, 105, 106, 107, 108, 109, 110,
      111, 112, 113, 114, 115, 116, 117, 118, 119, 120]"

definition example_grid :: image_data where
  "example_grid = \<lparr>width = 5, height = 4, data =
       [1, 2, 3, 255, 4, 5, 6, 255, 7, 8, 9, 255, 10, 11, 12, 255,
        13, 14, 15, 255, 16, 21, 22, 255, 23, 24, 25, 255, 26, 27, 28, 255,
        29, 30, 31, 255, 32, 0, 0, 255, 0, 20, 0, 255, 0, 172, 68, 255,
        101, 102, 103, 255, 104, 105, 106, 255, 107, 108, 109, 255, 110, 111, 112, 255,
        113, 114, 115, 255, 116, 117, 118, 255, 119, 120, 0, 255, 0, 0, 0, 0]\<rparr>"

subsection \<open>A stand-in platform\<close>

text \<open>
  For concrete runs the platform has to be something that computes. This one is not
  AES-GCM and protects nothing: it masks each byte and appends a 16-byte checksum of key,
  IV and plaintext as the tag. It shares with AES-GCM the properties the theorems below
  assume of a platform: decrypting what was encrypted under the same key and IV gives the
  plaintext back, the ciphertext is 16 bytes longer than the plaintext, and a ciphertext
  shorter than the tag is rejected.
\<close>

definition toy_tag :: "byte list \<Rightarrow> byte list \<Rightarrow> byte list \<Rightarrow> byte list" where
  "toy_tag key iv plain = replicate 16 (foldl (+) 0 (key @ iv @ plain))"

definition toy_encrypt :: "byte list \<Rightarrow> byte list \<Rightarrow> byte list \<Rightarrow> byte list" where
  "toy_encrypt key iv plain = map (\<lambda>b. b XOR 0x5A) plain @ toy_tag key iv plain"

definition toy_decrypt :: "byte list \<Rightarrow> byte list \<Rightarrow> byte list \<Rightarrow> byte list option" where
  "toy_decrypt key iv cipher =
     (if length cipher < 16 then None
      else let plain = map (\<lambda>b. b XOR 0x5A) (take (length cipher - 16) cipher)
           in if drop (length cipher - 16) cipher = toy_tag key iv plain then Some plain
              else None)"

definition toy_platform :: "(byte list) platform" where
  "toy_platform =
     \<lparr>text_encode = map ucast,
      pbkdf2_sha256 = (\<lambda>keyMaterial salt iterations. keyMaterial @ salt),
      aes_gcm_encrypt = toy_encrypt,
      aes_gcm_decrypt = toy_decrypt,
      rate_supported = (\<lambda>rate. 3000 \<le> rate \<and> rate \<le> 768000)\<rparr>"

text \<open>
  The salt and IV of the worked example, and two images for the passphrase
  \<open>Tr0ub4dor&3\<close> on the stand-in platform: one whose header declares no ciphertext
  and the sample rate 0 (every payload byte zero), and one that carries a well-formed
  ciphertext of one sample under a header with the sample rate 0.
\<close>

definition example_salt :: "byte list" where
  "example_salt = [1, 2, 3, 4, 5, 6, 7, 8, 9, 10, 11, 12, 13, 14, 15, 16]"

definition example_iv :: "byte list" where
  "example_iv = [21, 22, 23, 24, 25, 26, 27, 28, 29, 30, 31, 32]"

definition blank_canvas :: image_data where
  "blank_canvas = \<lparr>width = 4, height = 3, data =
       [0, 0, 0, 255, 0, 0, 0, 255, 0, 0, 0, 255, 0, 0, 0, 255,
        0, 0, 0, 255, 0, 0, 0, 255, 0, 0, 0, 255, 0, 0, 0, 255,
        0, 0, 0, 255, 0, 0, 0, 255, 0, 0, 0, 255, 0, 0, 0, 255]\<rparr>"

definition rate0_payload :: "byte list" where
  "rate0_payload =
     [1, 2, 3, 4, 5, 6, 7, 8, 9, 10, 11, 12, 13, 14, 15, 16,
      21, 22, 23, 24, 25, 26, 27, 28, 29, 30, 31, 32, 0, 0, 0, 20,
      0, 0, 0, 0, 90, 90, 90, 90, 101, 101, 101, 101, 101, 101, 101, 101,
      101, 101, 101, 101, 101, 101, 101, 101]"

definition rate0_canvas :: image_data where
  "rate0_canvas = \<lparr>width = 5, height = 4, data =
       [1, 2, 3, 255, 4, 5, 6, 255, 7, 8, 9, 255, 10, 11, 12, 255,
        13, 14, 15, 255, 16, 21, 22, 255, 23, 24, 25, 255, 26, 27, 28, 255,
        29, 30, 31, 255, 32, 0, 0, 255, 0, 20, 0, 255, 0, 0, 0, 255,
        90, 90, 90, 255, 90, 101, 101, 255, 101, 101, 101, 255, 101, 101, 101, 255,
        101, 101, 101, 255, 101, 101, 101, 255, 101, 101, 0, 255, 0, 0, 0, 0]\<rparr>"

section \<open>Verification\<close>

subsection \<open>Image dimensions\<close>

lemma ceil_div3: "nat \<lceil>real n / real BYTES_PER_PIXEL\<rceil> = (n + 2) div 3"
proof -
  have "\<lceil>real n / 3\<rceil> = int ((n + 2) div 3)"
  proof (rule ceiling_unique)
    have "(n + 2) div 3 * 3 \<le> n + 2" by simp
    then have "real ((n + 2) div 3 * 3) \<le> real (n + 2)" by (simp only: of_nat_le_iff)
    then show "real_of_int (int ((n + 2) div 3)) - 1 < real n / 3" by simp
    have "n \<le> (n + 2) div 3 * 3" by linarith
    then have "real n \<le> real ((n + 2) div 3 * 3)" by (simp only: of_nat_le_iff)
    then show "real n / 3 \<le> real_of_int (int ((n + 2) div 3))" by simp
  qed
  then show ?thesis by (simp add: BYTES_PER_PIXEL_def)
qed

lemma ceil_sqrt_ge: "n \<le> nat \<lceil>sqrt (real n)\<rceil> * nat \<lceil>sqrt (real n)\<rceil>"
proof -
  let ?w = "nat \<lceil>sqrt (real n)\<rceil>"
  have "sqrt (real n) \<le> real ?w" by (rule real_nat_ceiling_ge)
  moreover have "0 \<le> sqrt (real n)" by (rule real_sqrt_ge_zero) simp
  ultimately have "(sqrt (real n))\<^sup>2 \<le> (real ?w)\<^sup>2" by (rule power_mono)
  then have "real n \<le> real (?w * ?w)" by (simp add: power2_eq_square)
  then show ?thesis by (simp only: of_nat_le_iff)
qed

lemma ceil_sqrt_pos: "0 < n \<Longrightarrow> 0 < nat \<lceil>sqrt (real n)\<rceil>"
  using ceil_sqrt_ge[of n] by (cases "nat \<lceil>sqrt (real n)\<rceil>") simp_all

lemma ceil_quot_ge:
  assumes "0 < w"
  shows "n \<le> w * nat \<lceil>real n / real w\<rceil>"
proof -
  have "real n / real w \<le> real (nat \<lceil>real n / real w\<rceil>)" by (rule real_nat_ceiling_ge)
  then have "real n \<le> real (nat \<lceil>real n / real w\<rceil>) * real w"
    using assms by (simp only: pos_divide_le_eq of_nat_0_less_iff)
  then have "real n \<le> real (w * nat \<lceil>real n / real w\<rceil>)" by (simp add: mult.commute)
  then show ?thesis by (simp only: of_nat_le_iff)
qed

lemma ceil_quot_pos: "0 < w \<Longrightarrow> 0 < n \<Longrightarrow> 0 < nat \<lceil>real n / real w\<rceil>"
  using ceil_quot_ge[of w n] by (cases "nat \<lceil>real n / real w\<rceil>") simp_all

lemma ceil_sqrt_unique:
  assumes "n \<le> w * w" "(w - 1) * (w - 1) < n"
  shows "nat \<lceil>sqrt (real n)\<rceil> = w"
proof -
  have w: "0 < w" using assms by (cases w) simp_all
  have "\<lceil>sqrt (real n)\<rceil> = int w"
  proof (rule ceiling_unique)
    have "real ((w - 1) * (w - 1)) < real n" using assms(2) by (simp only: of_nat_less_iff)
    then have "(real w - 1)\<^sup>2 < real n" using w by (simp add: power2_eq_square)
    then have "real w - 1 < sqrt (real n)" by (rule real_less_rsqrt)
    then show "real_of_int (int w) - 1 < sqrt (real n)" by simp
    have "real n \<le> real (w * w)" using assms(1) by (simp only: of_nat_le_iff)
    then have "real n \<le> (real w)\<^sup>2" by (simp add: power2_eq_square)
    then have "sqrt (real n) \<le> real w" by (intro real_le_lsqrt) simp_all
    then show "sqrt (real n) \<le> real_of_int (int w)" by simp
  qed
  then show ?thesis by simp
qed

subsection \<open>The packing loop\<close>

lemma pixel_value_at:
  assumes "c < 4"
  shows "pixel_value P (4 * p + c) =
           (if c = 3 then 255 else if 3 * p + c < length P then P ! (3 * p + c) else 0)"
proof -
  have "(4 * p + c) div 4 = p" "(4 * p + c) mod 4 = c" using assms by simp_all
  then show ?thesis by (simp add: pixel_value_def)
qed

lemma pixel_value_simps:
  "pixel_value P (4 * p) = (if 3 * p < length P then P ! (3 * p) else 0)"
  "pixel_value P (4 * p + 1) = (if 3 * p + 1 < length P then P ! (3 * p + 1) else 0)"
  "pixel_value P (4 * p + 2) = (if 3 * p + 2 < length P then P ! (3 * p + 2) else 0)"
  "pixel_value P (4 * p + 3) = 255"
  using pixel_value_at[of 0 P p] pixel_value_at[of 1 P p] pixel_value_at[of 2 P p]
    pixel_value_at[of 3 P p]
  by simp_all

lemma four_cases:
  "j div 4 = p \<longleftrightarrow> j = 4 * p \<or> j = 4 * p + 1 \<or> j = 4 * p + 2 \<or> j = 4 * p + (3::nat)"
  by presburger

lemma write_pixel_nth_in:
  assumes "4 * p + 3 < length d" "3 * p < length P" "c < 4"
  shows "write_pixel P d p ! (4 * p + c) = pixel_value P (4 * p + c)"
proof -
  from \<open>c < 4\<close> consider "c = 0" | "c = 1" | "c = 2" | "c = 3" by linarith
  then show ?thesis
  proof cases
    case 1 then show ?thesis using assms pixel_value_simps[of P p] by (simp add: write_pixel_def)
  next
    case 2 then show ?thesis using assms pixel_value_simps[of P p] by (simp add: write_pixel_def)
  next
    case 3 then show ?thesis using assms pixel_value_simps[of P p] by (simp add: write_pixel_def)
  next
    case 4 then show ?thesis using assms pixel_value_simps[of P p] by (simp add: write_pixel_def)
  qed
qed

lemma write_pixel_nth_out:
  assumes "j div 4 \<noteq> p"
  shows "write_pixel P d p ! j = d ! j"
proof -
  from assms have "j \<noteq> 4 * p" "j \<noteq> 4 * p + 1" "j \<noteq> 4 * p + 2" "j \<noteq> 4 * p + 3"
    unfolding four_cases by simp_all
  then show ?thesis by (simp add: write_pixel_def)
qed

lemma write_pixel_nth:
  assumes "4 * p + 3 < length d" "3 * p < length P"
  shows "write_pixel P d p ! j = (if j div 4 = p then pixel_value P j else d ! j)"
proof (cases "j div 4 = p")
  case True
  then obtain c where "j = 4 * p + c" "c < 4"
    by (metis mod_less_divisor mult_div_mod_eq zero_less_numeral)
  then show ?thesis using write_pixel_nth_in[OF assms, of c] True by simp
next
  case False
  then show ?thesis by (simp add: write_pixel_nth_out)
qed


lemma put_channel_fst:
  "fst (put_channel P d j k) = d[j := (if k < length P then P ! k else 0)]"
  by (simp add: put_channel_def)

lemma put_channel_snd:
  "snd (put_channel P d j k) = (if k < length P then k + 1 else k)"
  by (simp add: put_channel_def)

lemma write_pixel_length: "length (write_pixel P d p) = length d"
  by (simp add: write_pixel_def)

lemma pack_loop_last:
  assumes "Suc p = (length P + 2) div 3" "4 * p < length d"
  shows "pack_loop P ((length P + 2) div 3) d (4 * p) (3 * p) = write_pixel P d p"
proof -
  have N: "3 * p < length P" "length P \<le> 3 * p + 3" using assms(1) by linarith+
  show ?thesis
    apply (subst pack_loop.simps)
    using assms N
    by (auto simp add: Let_def put_channel_fst put_channel_snd write_pixel_def)
qed

lemma pack_loop_step:
  assumes "Suc p < (length P + 2) div 3" "4 * p < length d"
  shows "pack_loop P ((length P + 2) div 3) d (4 * p) (3 * p) =
           pack_loop P ((length P + 2) div 3) (write_pixel P d p) (4 * Suc p) (3 * Suc p)"
proof -
  have N: "3 * p + 3 < length P" using assms(1) by linarith
  have e: "4 * Suc p = 4 * p + 4" "3 * Suc p = Suc (Suc (Suc (3 * p)))" by simp_all
  show ?thesis
    unfolding e
    apply (subst pack_loop.simps)
    using assms N
    by (auto simp add: Let_def put_channel_fst put_channel_snd write_pixel_def)
qed

lemma pack_loop_length: "length (pack_loop P n d i k) = length d"
proof (induction P n d i k rule: pack_loop.induct)
  case (1 P n d i k)
  show ?case
    apply (subst pack_loop.simps)
    using 1 by (simp add: Let_def put_channel_fst put_channel_snd)
qed

lemma pack_loop_nth:
  assumes "numPx = (length P + 2) div 3" "4 * numPx \<le> length d" "p < numPx"
  shows "pack_loop P numPx d (4 * p) (3 * p) ! j =
           (if j div 4 < p \<or> numPx \<le> j div 4 then d ! j else pixel_value P j)"
  using assms
proof (induction "numPx - Suc p" arbitrary: p d)
  case 0
  then have p: "Suc p = (length P + 2) div 3" by simp
  have lt: "4 * p + 3 < length d" "3 * p < length P" using p 0 by linarith+
  have "j div 4 < p \<or> numPx \<le> j div 4 \<longleftrightarrow> j div 4 \<noteq> p" using p 0(2) by linarith
  then show ?case
    using pack_loop_last[OF p, of d] lt write_pixel_nth[OF lt, of j] 0(2)
    by simp
next
  case (Suc n)
  then have p: "Suc p < (length P + 2) div 3" by simp
  have lt: "4 * p + 3 < length d" "3 * p < length P" using p Suc by linarith+
  have IH: "pack_loop P numPx (write_pixel P d p) (4 * Suc p) (3 * Suc p) ! j =
             (if j div 4 < Suc p \<or> numPx \<le> j div 4 then write_pixel P d p ! j else pixel_value P j)"
    using Suc by (intro Suc(1)) (auto simp: write_pixel_length)
  have a: "j div 4 < Suc p \<longleftrightarrow> j div 4 < p \<or> j div 4 = p" by linarith
  have b: "j div 4 = p \<Longrightarrow> \<not> numPx \<le> j div 4" using Suc(5) by linarith
  show ?case
  proof (cases "j div 4 = p")
    case True
    then show ?thesis
      using pack_loop_step[OF p, of d] lt IH write_pixel_nth[OF lt, of j] Suc(3) b by simp
  next
    case False
    then show ?thesis
      using pack_loop_step[OF p, of d] lt IH write_pixel_nth[OF lt, of j] Suc(3) a by auto
  qed
qed

subsection \<open>The unpacking loop\<close>

lemma unpack_loop_length:
  "length (unpack_loop pd M acc i k) = length acc"
proof (induction pd M acc i k rule: unpack_loop.induct)
  case (1 pd M acc i k)
  show ?case
    apply (subst unpack_loop.simps)
    using 1 by (simp add: Let_def)
qed

lemma unpack_loop_done:
  "length pd div 4 \<le> p \<Longrightarrow> unpack_loop pd (3 * (length pd div 4)) acc (4 * p) (3 * p) = acc"
  by (subst unpack_loop.simps) simp

lemma unpack_loop_step:
  assumes "p < length pd div 4"
  shows "unpack_loop pd (3 * (length pd div 4)) acc (4 * p) (3 * p) =
           unpack_loop pd (3 * (length pd div 4))
             (acc[3 * p := pd ! (4 * p), 3 * p + 1 := pd ! (4 * p + 1), 3 * p + 2 := pd ! (4 * p + 2)])
             (4 * Suc p) (3 * Suc p)"
proof -
  have lt: "4 * p + 3 < length pd" "3 * p + 2 < 3 * (length pd div 4)" using assms by linarith+
  have e: "4 * Suc p = 4 * p + 4" "3 * Suc p = Suc (Suc (Suc (3 * p)))" by simp_all
  show ?thesis
    unfolding e
    apply (subst unpack_loop.simps)
    using lt by (simp add: Let_def rd_def)
qed

lemma three_cases:
  "j div 3 = p \<longleftrightarrow> j = 3 * p \<or> j = 3 * p + 1 \<or> j = 3 * p + (2::nat)"
  by presburger

lemma unpack_loop_nth:
  assumes "length acc = 3 * (length pd div 4)" "j < length acc"
  shows "unpack_loop pd (3 * (length pd div 4)) acc (4 * p) (3 * p) ! j =
           (if j div 3 < p then acc ! j else pd ! (4 * (j div 3) + j mod 3))"
  using assms
proof (induction "length pd div 4 - p" arbitrary: p acc)
  case 0
  then have "j div 3 < p" by linarith
  then show ?case using 0 by (simp add: unpack_loop_done)
next
  case (Suc n)
  then have p: "p < length pd div 4" by simp
  let ?acc = "acc[3 * p := pd ! (4 * p), 3 * p + 1 := pd ! (4 * p + 1), 3 * p + 2 := pd ! (4 * p + 2)]"
  have IH: "unpack_loop pd (3 * (length pd div 4)) ?acc (4 * Suc p) (3 * Suc p) ! j =
              (if j div 3 < Suc p then ?acc ! j else pd ! (4 * (j div 3) + j mod 3))"
    using Suc by (intro Suc(1)) auto
  have lt: "3 * p + 2 < length acc" using p Suc(3) by linarith
  show ?case
  proof (cases "j div 3 = p")
    case True
    define c where "c = j mod 3"
    have "j = 3 * (j div 3) + j mod 3" by simp
    then have j: "j = 3 * p + c" "c < 3" unfolding True c_def by simp_all
    from \<open>c < 3\<close> consider "c = 0" | "c = 1" | "c = 2" by linarith
    then have "?acc ! (3 * p + c) = pd ! (4 * p + c)"
    proof cases
      case 1 then show ?thesis using lt by simp
    next
      case 2 then show ?thesis using lt by simp
    next
      case 3 then show ?thesis using lt by simp
    qed
    then have "?acc ! j = pd ! (4 * (j div 3) + j mod 3)"
      unfolding True c_def[symmetric] j(1)[symmetric] .
    then show ?thesis using True IH unpack_loop_step[OF p, of acc] by simp
  next
    case False
    then have "j \<noteq> 3 * p" "j \<noteq> 3 * p + 1" "j \<noteq> 3 * p + 2" unfolding three_cases by simp_all
    then have "?acc ! j = acc ! j" by simp
    moreover have "j div 3 < Suc p \<longleftrightarrow> j div 3 < p" using False by linarith
    ultimately show ?thesis using IH unpack_loop_step[OF p, of acc] by simp
  qed
qed

lemma unpackPixels_length: "length (unpackPixels pd) = 3 * (length pd div 4)"
  by (simp add: unpackPixels_def BYTES_PER_PIXEL_def unpack_loop_length Let_def)

lemma unpackPixels_nth:
  assumes "j < 3 * (length pd div 4)"
  shows "unpackPixels pd ! j = pd ! (4 * (j div 3) + j mod 3)"
proof -
  have "unpack_loop pd (3 * (length pd div 4)) (replicate (3 * (length pd div 4)) 0) (4 * 0) (3 * 0) ! j
          = pd ! (4 * (j div 3) + j mod 3)"
    using assms by (subst unpack_loop_nth) simp_all
  then show ?thesis by (simp add: unpackPixels_def BYTES_PER_PIXEL_def Let_def mult.commute)
qed

subsection \<open>The packed image\<close>

lemma packPixels_eq:
  assumes "P \<noteq> []"
  defines "n \<equiv> (length P + 2) div 3"
  defines "w \<equiv> nat \<lceil>sqrt (real n)\<rceil>"
  defines "h \<equiv> nat \<lceil>real n / real w\<rceil>"
  shows "packPixels P =
           Inr \<lparr>width = w, height = h, data = pack_loop P n (replicate (4 * w * h) 0) 0 0\<rparr>"
    and "0 < n" and "0 < w" and "0 < h" and "n \<le> w * h"
proof -
  show n: "0 < n" using assms(1) by (cases P) (simp_all add: n_def)
  show w: "0 < w" unfolding w_def using n by (rule ceil_sqrt_pos)
  show h: "0 < h" unfolding h_def using w n by (rule ceil_quot_pos)
  show "n \<le> w * h" unfolding h_def using w by (rule ceil_quot_ge)
  show "packPixels P =
           Inr \<lparr>width = w, height = h, data = pack_loop P n (replicate (4 * w * h) 0) 0 0\<rparr>"
  proof -
    have "packPixels P =
            (case createImageData w h of Inl e \<Rightarrow> Inl e
             | Inr imgData \<Rightarrow>
                 Inr (imgData\<lparr>data := pack_loop P n (data imgData) 0 0\<rparr>))"
      unfolding packPixels_def Let_def ceil_div3 n_def[symmetric] w_def[symmetric]
        h_def[symmetric] ..
    also have "createImageData w h = Inr \<lparr>width = w, height = h, data = replicate (4 * w * h) 0\<rparr>"
      using w h by (simp add: createImageData_def)
    finally show ?thesis by simp
  qed
qed

lemma packed_nth:
  assumes "P \<noteq> []" "n = (length P + 2) div 3" "n \<le> m" "j < 4 * m"
  shows "pack_loop P n (replicate (4 * m) 0) 0 0 ! j =
           (if n \<le> j div 4 then 0 else pixel_value P j)"
proof -
  have n: "0 < n" using assms(1,2) by (cases P) simp_all
  have "pack_loop P n (replicate (4 * m) 0) (4 * 0) (3 * 0) ! j =
          (if j div 4 < 0 \<or> n \<le> j div 4 then replicate (4 * m) 0 ! j else pixel_value P j)"
    using assms n by (intro pack_loop_nth) simp_all
  then show ?thesis using assms(4) by simp
qed

lemma example_payload_length: "length example_payload = 56"
  by (simp add: example_payload_def)

lemma example_pack_loop:
  "pack_loop example_payload 19 (replicate 80 0) 0 0 = data example_grid"
  by code_simp

lemma example_packPixels: "packPixels example_payload = Inr example_grid"
proof -
  have ne: "example_payload \<noteq> []" by (simp add: example_payload_def)
  have n: "(length example_payload + 2) div 3 = 19" by (simp add: example_payload_length)
  have w: "nat \<lceil>sqrt (real 19)\<rceil> = 5" by (rule ceil_sqrt_unique) simp_all
  have h: "nat \<lceil>real 19 / real 5\<rceil> = 4" by simp
  show ?thesis
    using packPixels_eq(1)[OF ne] unfolding n w h
    by (simp add: example_pack_loop) (simp add: example_grid_def)
qed

subsection \<open>Packing and unpacking\<close>

lemma unpack_pack_nth:
  assumes "P \<noteq> []" "n = (length P + 2) div 3" "n \<le> m" "j < length P"
  shows "unpackPixels (pack_loop P n (replicate (4 * m) 0) 0 0) ! j = P ! j"
proof -
  let ?d = "pack_loop P n (replicate (4 * m) 0) 0 0"
  have len: "length ?d = 4 * m" by (simp add: pack_loop_length)
  have jn: "j div 3 < n" using assms(2,4) by linarith
  have c: "j mod 3 < 4" "j mod 3 \<noteq> 3" "j mod 3 < 3" by simp_all
  have j: "3 * (j div 3) + j mod 3 = j" by simp
  have idx: "(4 * (j div 3) + j mod 3) div 4 = j div 3" by simp
  have "unpackPixels ?d ! j = ?d ! (4 * (j div 3) + j mod 3)"
    using jn assms(3) by (intro unpackPixels_nth) (simp add: len)
  also have "\<dots> = pixel_value P (4 * (j div 3) + j mod 3)"
    using jn assms(3) packed_nth[OF assms(1-3), of "4 * (j div 3) + j mod 3"]
    unfolding idx by simp
  also have "\<dots> = P ! j"
    using pixel_value_at[OF c(1), of P "j div 3"] c(2) assms(4) unfolding j by simp
  finally show ?thesis .
qed

lemma packPixels_unpack:
  assumes "payload \<noteq> []"
  shows "\<exists>grid. packPixels payload = Inr grid
           \<and> width grid = nat \<lceil>sqrt (real (nat \<lceil>real (length payload) / 3\<rceil>))\<rceil>
           \<and> height grid = nat \<lceil>real (nat \<lceil>real (length payload) / 3\<rceil>) / real (width grid)\<rceil>
           \<and> 0 < width grid \<and> 0 < height grid
           \<and> length payload \<le> width grid * height grid * 3
           \<and> length (data grid) = width grid * height grid * 4
           \<and> length (unpackPixels (data grid)) = width grid * height grid * 3
           \<and> take (length payload) (unpackPixels (data grid)) = payload"
proof -
  define n where "n = (length payload + 2) div 3"
  define w where "w = nat \<lceil>sqrt (real n)\<rceil>"
  define h where "h = nat \<lceil>real n / real w\<rceil>"
  define grid where
    "grid = \<lparr>width = w, height = h, data = pack_loop payload n (replicate (4 * w * h) 0) 0 0\<rparr>"
  note pk = packPixels_eq[OF assms, folded n_def, folded w_def, folded h_def, folded grid_def]
  have n3: "nat \<lceil>real (length payload) / 3\<rceil> = n"
    using ceil_div3[of "length payload"] by (simp add: BYTES_PER_PIXEL_def n_def)
  have cap: "length payload \<le> w * h * 3" using pk(5) unfolding n_def by linarith
  have dlen: "length (data grid) = w * h * 4" by (simp add: grid_def pack_loop_length)
  have ulen: "length (unpackPixels (data grid)) = w * h * 3"
    by (simp add: unpackPixels_length dlen)
  have "take (length payload) (unpackPixels (data grid)) = payload"
  proof (rule nth_equalityI)
    show "length (take (length payload) (unpackPixels (data grid))) = length payload"
      using cap ulen by simp
    fix j assume "j < length (take (length payload) (unpackPixels (data grid)))"
    then have j: "j < length payload" by simp
    have "unpackPixels (pack_loop payload n (replicate (4 * (w * h)) 0) 0 0) ! j = payload ! j"
      using assms n_def pk(5) j by (rule unpack_pack_nth)
    then show "take (length payload) (unpackPixels (data grid)) ! j = payload ! j"
      using j by (simp add: grid_def mult.assoc)
  qed
  then show ?thesis
    using pk(1,3,4) n3 cap dlen ulen by (intro exI[of _ grid]) (simp add: grid_def w_def h_def)
qed

text \<open>
  Claim C6. A payload of \<open>N\<close> bytes (every payload has at least its 36 header
  bytes, so \<open>N > 0\<close>) is packed into a grid of width
  \<open>ceil (sqrt (ceil (N / 3)))\<close> and height \<open>ceil (ceil (N / 3) / width)\<close>, whose
  capacity \<open>width * height * 3\<close> is at least \<open>N\<close>; unpacking the grid's data gives
  \<open>width * height * 3\<close> bytes, the first \<open>N\<close> of which are the payload.
\<close>

theorem pack_unpack_capacity_roundtrip:
  assumes "payload \<noteq> []"
  shows "\<exists>grid. packPixels payload = Inr grid
           \<and> width grid = nat \<lceil>sqrt (real (nat \<lceil>real (length payload) / 3\<rceil>))\<rceil>
           \<and> height grid = nat \<lceil>real (nat \<lceil>real (length payload) / 3\<rceil>) / real (width grid)\<rceil>
           \<and> length payload \<le> width grid * height grid * 3
           \<and> length (unpackPixels (data grid)) = width grid * height grid * 3
           \<and> take (length payload) (unpackPixels (data grid)) = payload"
  using packPixels_unpack[OF assms] by blast

theorem pack_unpack_capacity_roundtrip_witness:
  "example_payload \<noteq> [] \<and>
   (\<exists>grid. packPixels example_payload = Inr grid
           \<and> width grid = 5 \<and> height grid = 4
           \<and> length example_payload \<le> width grid * height grid * 3
           \<and> take (length example_payload) (unpackPixels (data grid)) = example_payload)"
proof -
  have ne: "example_payload \<noteq> []" by (simp add: example_payload_def)
  from pack_unpack_capacity_roundtrip[OF ne] obtain grid where
    g: "packPixels example_payload = Inr grid"
       "length example_payload \<le> width grid * height grid * 3"
       "take (length example_payload) (unpackPixels (data grid)) = example_payload"
    by blast
  from g(1) have "grid = example_grid" by (simp add: example_packPixels)
  then have "width grid = 5" "height grid = 4" by (simp_all add: example_grid_def)
  with ne g show ?thesis by blast
qed

subsection \<open>The layout of the packed image\<close>

lemma packPixels_Nil: "packPixels [] = Inl IndexSizeError"
  by (simp add: packPixels_def createImageData_def)

lemma packPixels_InrD:
  assumes "packPixels P = Inr grid"
  shows "P \<noteq> []"
    and "data grid = pack_loop P ((length P + 2) div 3) (replicate (4 * (width grid * height grid)) 0) 0 0"
    and "(length P + 2) div 3 \<le> width grid * height grid"
proof -
  show ne: "P \<noteq> []" using assms by (auto simp: packPixels_Nil)
  note pk = packPixels_eq[OF ne]
  from pk(1) assms have g: "grid = \<lparr>width = nat \<lceil>sqrt (real ((length P + 2) div 3))\<rceil>,
      height = nat \<lceil>real ((length P + 2) div 3) / real (nat \<lceil>sqrt (real ((length P + 2) div 3))\<rceil>)\<rceil>,
      data = pack_loop P ((length P + 2) div 3)
               (replicate (4 * nat \<lceil>sqrt (real ((length P + 2) div 3))\<rceil> *
                  nat \<lceil>real ((length P + 2) div 3) / real (nat \<lceil>sqrt (real ((length P + 2) div 3))\<rceil>)\<rceil>) 0) 0 0\<rparr>"
    by simp
  show "data grid = pack_loop P ((length P + 2) div 3) (replicate (4 * (width grid * height grid)) 0) 0 0"
    by (subst (1 2 3) g) (simp add: mult.assoc)
  show "(length P + 2) div 3 \<le> width grid * height grid"
    using pk(5) by (subst (1 2) g) simp
qed

lemma row_major_bound:
  assumes "x < (w::nat)" "y < h"
  shows "y * w + x < w * h"
proof -
  have "y * w + x < y * w + w" using assms(1) by simp
  also have "\<dots> = Suc y * w" by simp
  also have "\<dots> \<le> h * w" using assms(2) by (intro mult_le_mono1) simp
  finally show ?thesis by (simp add: mult.commute)
qed

text \<open>
  Claim C7, as the code has it. In the grid packed from a payload of \<open>N\<close> bytes, the
  pixel in row \<open>y\<close> and column \<open>x\<close> (pixel \<open>p = y * width + x\<close>, row-major) holds
  payload bytes \<open>3 * p\<close>, \<open>3 * p + 1\<close>, \<open>3 * p + 2\<close> in R, G, B, and zero in every
  such slot beyond the payload's length. Alpha is 255 for the first \<open>ceil (N / 3)\<close>
  pixels, those up to the last one that carries payload; the loop stops there, and the
  padding pixels after it keep the alpha 0 of a fresh image.
\<close>

theorem packPixels_layout:
  assumes "packPixels payload = Inr grid" "x < width grid" "y < height grid" "c < 3"
  shows "data grid ! (4 * (y * width grid + x) + c) =
           (if 3 * (y * width grid + x) + c < length payload
            then payload ! (3 * (y * width grid + x) + c) else 0)
       \<and> data grid ! (4 * (y * width grid + x) + 3) =
           (if y * width grid + x < nat \<lceil>real (length payload) / 3\<rceil> then 255 else 0)"
proof -
  define p where "p = y * width grid + x"
  define n where "n = (length payload + 2) div 3"
  note g = packPixels_InrD[OF assms(1), folded n_def]
  have p: "p < width grid * height grid" unfolding p_def using assms(2,3) by (rule row_major_bound)
  have n3: "nat \<lceil>real (length payload) / 3\<rceil> = n"
    using ceil_div3[of "length payload"] by (simp add: BYTES_PER_PIXEL_def n_def)
  have nth: "data grid ! (4 * p + k) = (if n \<le> p then 0 else pixel_value payload (4 * p + k))"
    if "k < 4" for k
  proof -
    have "(4 * p + k) div 4 = p" using that by simp
    moreover have "4 * p + k < 4 * (width grid * height grid)" using p that by linarith
    ultimately show ?thesis
      using packed_nth[OF g(1) n_def g(3), of "4 * p + k"] by (simp add: g(2))
  qed
  have beyond: "\<not> 3 * p + c < length payload" if "n \<le> p"
    using that unfolding n_def by linarith
  have "data grid ! (4 * p + c) = (if 3 * p + c < length payload then payload ! (3 * p + c) else 0)"
    using nth[of c] pixel_value_at[of c payload p] assms(4) beyond by auto
  moreover have "data grid ! (4 * p + 3) = (if p < n then 255 else 0)"
    using nth[of 3] pixel_value_at[of 3 payload p] by auto
  ultimately show ?thesis unfolding p_def n3 by simp
qed

theorem packPixels_layout_witness:
  "packPixels example_payload = Inr example_grid \<and> 3 < width example_grid
   \<and> 3 < height example_grid \<and> (2::nat) < 3
   \<and> data example_grid ! (4 * (3 * width example_grid + 3) + 2) = 0
   \<and> data example_grid ! (4 * (3 * width example_grid + 3) + 3) = 255"
proof -
  have h: "3 < width example_grid" "3 < height example_grid" "(2::nat) < 3"
    by (simp_all add: example_grid_def)
  have w: "width example_grid = 5" by (simp add: example_grid_def)
  show ?thesis
    using packPixels_layout[OF example_packPixels h] h example_packPixels
    by (simp add: w example_payload_length)
qed

text \<open>
  The 56-byte example fills 19 of the 20 pixels of its 5 by 4 grid: the last pixel
  (column 4 of row 3) is padding, and its alpha is 0, not 255.
\<close>

theorem alpha_of_padding_counterexample:
  "packPixels example_payload = Inr example_grid \<and> width example_grid = 5
   \<and> height example_grid = 4 \<and> data example_grid ! (4 * (3 * 5 + 4) + 3) = 0"
  by (simp add: example_packPixels) (simp add: example_grid_def)

subsection \<open>32-bit fields\<close>

lemma uint32_of_bytes:
  "uint32_of (ucast (drop_bit 24 x)) (ucast (drop_bit 16 x)) (ucast (drop_bit 8 x)) (ucast x) = x"
proof (rule bit_word_eqI)
  fix n assume n: "n < LENGTH(32)"
  then consider "n < 8" | "8 \<le> n" "n < 16" | "16 \<le> n" "n < 24" | "24 \<le> n" "n < 32"
    by fastforce
  then show "bit (uint32_of (ucast (drop_bit 24 x)) (ucast (drop_bit 16 x)) (ucast (drop_bit 8 x)) (ucast x)) n = bit x n"
  proof cases
    case 1 then show ?thesis by (simp add: uint32_of_def bit_simps)
  next
    case 2
    then have "n - 8 < 8" "\<not> n < 8" "\<not> 16 \<le> n" "\<not> 24 \<le> n" by simp_all
    then show ?thesis using 2 by (simp add: uint32_of_def bit_simps)
  next
    case 3
    then have "n - 16 < 8" "\<not> n < 8" "8 \<le> n" "\<not> n - 8 < 8" "\<not> 24 \<le> n" by simp_all
    then show ?thesis using 3 by (simp add: uint32_of_def bit_simps)
  next
    case 4
    then have "n - 24 < 8" "\<not> n < 8" "8 \<le> n" "16 \<le> n" "\<not> n - 8 < 8" "\<not> n - 16 < 8"
      by simp_all
    then show ?thesis using 4 by (simp add: uint32_of_def bit_simps)
  qed
qed

lemma byte_of_drop: "unat (ucast (drop_bit k (x :: 32 word)) :: byte) = unat x div 2 ^ k mod 256"
proof -
  have "unat (ucast (drop_bit k x) :: byte) = take_bit 8 (drop_bit k (unat x))"
    by (simp only: unsigned_ucast_eq unat_drop_bit_eq) simp
  then show ?thesis by (simp add: drop_bit_eq_div take_bit_eq_mod)
qed

lemma split_be:
  assumes "n < 4294967296"
  shows "256 * (256 * (256 * (n div 16777216 mod 256) + n div 65536 mod 256) + n div 256 mod 256)
           + n mod 256 = (n::nat)"
proof -
  have a: "n div 65536 = n div 256 div 256" "n div 16777216 = n div 256 div 256 div 256"
    by (simp_all add: div_mult2_eq[symmetric])
  have b: "n div 256 div 256 div 256 mod 256 = n div 256 div 256 div 256"
    using assms by (intro mod_less) (simp add: div_mult2_eq[symmetric] less_mult_imp_div_less)
  show ?thesis
    unfolding a b by (simp only: mult_div_mod_eq)
qed

lemma be_value_uint32_bytes: "be_value (uint32_bytes x) = unat x"
proof -
  have lt: "unat x < 4294967296" using unsigned_less[of x, where 'a = nat] by simp
  have b: "unat (ucast x :: byte) = unat x mod 256" by (simp add: unsigned_ucast_eq take_bit_eq_mod)
  show ?thesis
    unfolding be_value_def uint32_bytes_def
    using byte_of_drop[of 24 x] byte_of_drop[of 16 x] byte_of_drop[of 8 x] b split_be[OF lt]
    by simp
qed

lemma uint32_bytes_of:
  "uint32_bytes (uint32_of b0 b1 b2 b3) = [b0, b1, b2, b3]"
proof -
  have "ucast (drop_bit 24 (uint32_of b0 b1 b2 b3)) = b0"
    by (rule bit_word_eqI) (auto simp add: uint32_of_def bit_simps dest: bit_imp_le_length)
  moreover have "ucast (drop_bit 16 (uint32_of b0 b1 b2 b3)) = b1"
    by (rule bit_word_eqI) (auto simp add: uint32_of_def bit_simps dest: bit_imp_le_length)
  moreover have "ucast (drop_bit 8 (uint32_of b0 b1 b2 b3)) = b2"
    by (rule bit_word_eqI) (auto simp add: uint32_of_def bit_simps dest: bit_imp_le_length)
  moreover have "ucast (uint32_of b0 b1 b2 b3) = b3"
    by (rule bit_word_eqI) (auto simp add: uint32_of_def bit_simps dest: bit_imp_le_length)
  ultimately show ?thesis by (simp add: uint32_bytes_def)
qed

lemma unat_uint32_of: "unat (uint32_of b0 b1 b2 b3) = be_value [b0, b1, b2, b3]"
  using be_value_uint32_bytes[of "uint32_of b0 b1 b2 b3"] by (simp add: uint32_bytes_of)

lemma take4_drop:
  assumes "k + 4 \<le> length xs"
  shows "take 4 (drop k xs) = [xs ! k, xs ! (k + 1), xs ! (k + 2), xs ! (k + 3)]"
proof (rule nth_equalityI)
  show "length (take 4 (drop k xs)) = length [xs ! k, xs ! (k + 1), xs ! (k + 2), xs ! (k + 3)]"
    using assms by simp
  fix i assume "i < length (take 4 (drop k xs))"
  then have "i < 4" by simp
  then consider "i = 0" | "i = 1" | "i = 2" | "i = 3" by linarith
  then show "take 4 (drop k xs) ! i = [xs ! k, xs ! (k + 1), xs ! (k + 2), xs ! (k + 3)] ! i"
    using assms by cases (simp_all add: add.commute)
qed

lemma getUint32_eq:
  "getUint32 view k = (if length view < k + 4 then Inl RangeError
                       else Inr (be_value (take 4 (drop k view))))"
  by (simp add: getUint32_def unat_uint32_of take4_drop)

lemma uint32_bytes_length: "length (uint32_bytes x) = 4"
  by (simp add: uint32_bytes_def)

lemma assemblePayload_eq:
  assumes "length salt = 16" "length iv = 12"
  shows "assemblePayload salt iv cipherBytes rate =
           Inr (salt @ iv @ uint32_bytes (of_nat (length cipherBytes))
                  @ uint32_bytes (of_nat rate) @ cipherBytes)"
  using assms
  by (simp add: assemblePayload_def ta_set_def setUint32_def HEADER_LENGTH_def SALT_LENGTH_def
      IV_LENGTH_def CIPHERTEXT_LENGTH_BYTES_def SAMPLE_RATE_BYTES_def uint32_bytes_length Let_def)

subsection \<open>The payload frame\<close>

lemma be_value_of_nat: "be_value (uint32_bytes (of_nat v)) = v mod 2 ^ 32"
  by (simp add: be_value_uint32_bytes unat_of_nat)

lemma frame_fields:
  assumes "length salt = 16" "length iv = 12" "length f1 = 4" "length f2 = 4"
  shows "take 16 (salt @ iv @ f1 @ f2 @ c) = salt"
    and "take 12 (drop 16 (salt @ iv @ f1 @ f2 @ c)) = iv"
    and "take 4 (drop 28 (salt @ iv @ f1 @ f2 @ c)) = f1"
    and "take 4 (drop 32 (salt @ iv @ f1 @ f2 @ c)) = f2"
    and "drop 36 (salt @ iv @ f1 @ f2 @ c) = c"
    and "length (salt @ iv @ f1 @ f2 @ c) = 36 + length c"
  using assms by simp_all

text \<open>
  Claim C2. For a 16-byte salt, a 12-byte nonce, any ciphertext and any sample rate, the
  assembled payload holds the salt in bytes 0-15, the nonce in bytes 16-27, the
  ciphertext length in bytes 28-31 and the sample rate in bytes 32-35, each as an
  unsigned 32-bit big-endian integer (the number modulo \<open>2 ^ 32\<close>, which is the number
  itself whenever it fits the field), and the ciphertext unchanged from byte 36 on; its
  length is 36 plus the ciphertext length.
\<close>
theorem assemblePayload_layout:
  assumes "length salt = 16" "length iv = 12"
  shows "\<exists>payload. assemblePayload salt iv cipherBytes rate = Inr payload
           \<and> take 16 payload = salt
           \<and> take 12 (drop 16 payload) = iv
           \<and> be_value (take 4 (drop 28 payload)) = length cipherBytes mod 2 ^ 32
           \<and> be_value (take 4 (drop 32 payload)) = rate mod 2 ^ 32
           \<and> drop 36 payload = cipherBytes
           \<and> length payload = 36 + length cipherBytes"
proof -
  let ?payload = "salt @ iv @ uint32_bytes (of_nat (length cipherBytes))
                    @ uint32_bytes (of_nat rate) @ cipherBytes"
  note f = frame_fields[OF assms uint32_bytes_length uint32_bytes_length,
      of "of_nat (length cipherBytes)" "of_nat rate" cipherBytes]
  have "assemblePayload salt iv cipherBytes rate = Inr ?payload"
    using assms by (rule assemblePayload_eq)
  then show ?thesis
    by (intro exI[of _ ?payload] conjI) (simp_all only: f be_value_of_nat)
qed

theorem assemblePayload_layout_witness:
  "length (take 16 example_payload) = 16 \<and> length (take 12 (drop 16 example_payload)) = 12
   \<and> (\<exists>payload. assemblePayload (take 16 example_payload) (take 12 (drop 16 example_payload))
                    (drop 36 example_payload) 44100 = Inr payload
         \<and> take 16 payload = take 16 example_payload
         \<and> take 12 (drop 16 payload) = take 12 (drop 16 example_payload)
         \<and> be_value (take 4 (drop 28 payload)) = 20
         \<and> be_value (take 4 (drop 32 payload)) = 44100
         \<and> drop 36 payload = drop 36 example_payload
         \<and> length payload = 56)"
proof -
  have h: "length (take 16 example_payload) = 16" "length (take 12 (drop 16 example_payload)) = 12"
    by (simp_all add: example_payload_length)
  have "length (drop 36 example_payload) = 20" by (simp add: example_payload_length)
  then show ?thesis
    using assemblePayload_layout[OF h, of "drop 36 example_payload" 44100] h by simp
qed

subsection \<open>Parsing\<close>

lemma parsePayload_eq:
  "parsePayload buf =
     (if length buf < 36 then Inl HeaderTooShort
      else if length buf < 36 + be_value (take 4 (drop 28 buf)) then Inl CiphertextLengthExceeds
      else Inr \<lparr>p_salt = take 16 buf, p_iv = take 12 (drop 16 buf),
                p_ciphertextLength = be_value (take 4 (drop 28 buf)),
                p_sampleRate = be_value (take 4 (drop 32 buf)),
                p_cipher = take (be_value (take 4 (drop 28 buf))) (drop 36 buf)\<rparr>)"
  by (simp add: parsePayload_def getUint32_eq slice_def HEADER_LENGTH_def SALT_LENGTH_def
      IV_LENGTH_def CIPHERTEXT_LENGTH_BYTES_def SAMPLE_RATE_BYTES_def Let_def)

text \<open>
  Claim C4. Parsing a buffer shorter than 36 bytes fails with the format error for a
  truncated header; parsing a buffer of at least 36 bytes whose declared ciphertext
  length (bytes 28-31, big-endian), added to the header length 36, exceeds the buffer's
  length fails with the format error for a truncated ciphertext.
\<close>
theorem parsePayload_truncated:
  "(length buf < 36 \<longrightarrow>
      parsePayload buf = Inl HeaderTooShort \<and> kind_of HeaderTooShort = FormatError)
   \<and> (36 \<le> length buf \<and> length buf < 36 + be_value (take 4 (drop 28 buf)) \<longrightarrow>
      parsePayload buf = Inl CiphertextLengthExceeds
      \<and> kind_of CiphertextLengthExceeds = FormatError)"
  by (simp add: parsePayload_eq)

theorem parsePayload_truncated_witness:
  "length (take 35 example_payload) < 36
   \<and> parsePayload (take 35 example_payload) = Inl HeaderTooShort
   \<and> 36 \<le> length (take 50 example_payload)
   \<and> length (take 50 example_payload) < 36 + be_value (take 4 (drop 28 (take 50 example_payload)))
   \<and> parsePayload (take 50 example_payload) = Inl CiphertextLengthExceeds"
proof -
  have a: "length (take 35 example_payload) < 36" by (simp add: example_payload_length)
  have b: "36 \<le> length (take 50 example_payload)" by (simp add: example_payload_length)
  have c: "length (take 50 example_payload) < 36 + be_value (take 4 (drop 28 (take 50 example_payload)))"
    by (simp add: example_payload_def be_value_def)
  show ?thesis
    using parsePayload_truncated[of "take 35 example_payload"]
      parsePayload_truncated[of "take 50 example_payload"] a b c
    by simp
qed

subsection \<open>The stand-in platform and the example images\<close>

lemma toy_roundtrip: "toy_decrypt key iv (toy_encrypt key iv plain) = Some plain"
proof -
  have "map (\<lambda>b. b XOR 0x5A) (map (\<lambda>b. b XOR 0x5A) plain) = plain"
    by (induction plain) (simp_all add: xor.assoc)
  then show ?thesis by (simp add: toy_decrypt_def toy_encrypt_def toy_tag_def)
qed

lemma toy_length: "length (toy_encrypt key iv plain) = length plain + 16"
  by (simp add: toy_encrypt_def toy_tag_def)

lemma toy_short: "length cipher < 16 \<Longrightarrow> toy_decrypt key iv cipher = None"
  by (simp add: toy_decrypt_def)

lemma toy_fields [simp]:
  "text_encode toy_platform = map ucast"
  "pbkdf2_sha256 toy_platform = (\<lambda>keyMaterial salt iterations. keyMaterial @ salt)"
  "aes_gcm_encrypt toy_platform = toy_encrypt"
  "aes_gcm_decrypt toy_platform = toy_decrypt"
  "rate_supported toy_platform = (\<lambda>rate. 3000 \<le> rate \<and> rate \<le> 768000)"
  by (simp_all add: toy_platform_def)

lemma replicate_16: "replicate 16 x = [x, x, x, x, x, x, x, x, x, x, x, x, x, x, x, x]"
  by (simp add: numeral_eq_Suc)

lemma rate0_unpack: "unpackPixels (data rate0_canvas) = rate0_payload @ [0, 0, 0, 0]"
  by code_simp
lemma blank_unpack: "unpackPixels (data blank_canvas) = replicate 36 0"
  by code_simp

subsection \<open>Password strength and the gate of encryption\<close>

lemma score_eq:
  "score (checkPasswordStrength p) =
     (if length p < 6 then 0
      else 1 + of_bool (12 \<le> length p) + of_bool (test_lower p) + of_bool (test_upper p)
             + of_bool (test_digit p) + of_bool (test_other p))"
  by (simp add: checkPasswordStrength_def bump_def Let_def)

lemma label_eq:
  "text_label (checkPasswordStrength p) =
     (if length p < 6 then ''Too Short''
      else if score (checkPasswordStrength p) < 2 then ''Weak''
      else if score (checkPasswordStrength p) < 5 then ''Medium'' else ''Strong'')"
  by (simp add: checkPasswordStrength_def Let_def)

lemma some_class:
  assumes "password \<noteq> []"
  shows "test_lower password \<or> test_upper password \<or> test_digit password \<or> test_other password"
proof -
  from assms obtain c where c: "c \<in> set password" by (cases password) auto
  then show ?thesis
    unfolding test_lower_def test_upper_def test_digit_def test_other_def list_ex_iff
    by blast
qed

lemma score_zero_or_two:
  "(length p < 6 \<longrightarrow> score (checkPasswordStrength p) = 0)
   \<and> (6 \<le> length p \<longrightarrow> 2 \<le> score (checkPasswordStrength p))"
proof (cases "length p < 6")
  case True then show ?thesis by (simp add: score_eq)
next
  case False
  then have "p \<noteq> []" by auto
  from some_class[OF this] show ?thesis using False by (auto simp add: score_eq)
qed

lemma encrypt_accepts:
  assumes "length salt = 16" "length iv = 12"
    and "2 \<le> score (checkPasswordStrength (getUserSecretKey field))"
  shows "encryptAudioToImage W field salt iv a =
           packPixels (salt @ iv
             @ uint32_bytes (of_nat (length (aes_gcm_encrypt W
                  (deriveKey W (getUserSecretKey field) salt) iv (buffer_of (channelData a)))))
             @ uint32_bytes (of_nat (sampleRate a))
             @ aes_gcm_encrypt W (deriveKey W (getUserSecretKey field) salt) iv
                 (buffer_of (channelData a)))"
proof -
  have "getUserSecretKey field \<noteq> []"
    using assms(3) by (auto simp add: score_eq)
  then show ?thesis
    using assms by (simp add: encryptAudioToImage_def Let_def assemblePayload_eq)
qed

lemma encrypt_rejects:
  assumes "score (checkPasswordStrength (getUserSecretKey field)) < 2"
  shows "encryptAudioToImage W field salt iv a \<in> {Inl SecretKeyRequired, Inl PasswordTooWeak}"
  using assms by (simp add: encryptAudioToImage_def Let_def)

lemma encrypt_gate:
  assumes "length salt = 16" "length iv = 12"
  shows "isl (encryptAudioToImage W field salt iv a)
           \<longleftrightarrow> score (checkPasswordStrength (getUserSecretKey field)) < 2"
proof (cases "score (checkPasswordStrength (getUserSecretKey field)) < 2")
  case True
  then show ?thesis using encrypt_rejects[OF True, of W salt iv a] by auto
next
  case False
  then have s: "2 \<le> score (checkPasswordStrength (getUserSecretKey field))" by simp
  let ?P = "salt @ iv
             @ uint32_bytes (of_nat (length (aes_gcm_encrypt W
                  (deriveKey W (getUserSecretKey field) salt) iv (buffer_of (channelData a)))))
             @ uint32_bytes (of_nat (sampleRate a))
             @ aes_gcm_encrypt W (deriveKey W (getUserSecretKey field) salt) iv
                 (buffer_of (channelData a))"
  have "?P \<noteq> []" using assms(1) by auto
  from packPixels_eq(1)[OF this] show ?thesis
    using False unfolding encrypt_accepts[OF assms s] by simp
qed

text \<open>
  Claim C8. A passphrase shorter than 6 code units scores 0 (Too Short). Any other
  passphrase scores 1, plus one point each for a length of at least 12, a lowercase
  letter, an uppercase letter, a digit, and a character that is none of these; its level
  is Weak below 2, Medium below 5 and Strong otherwise. Encryption (given the 16-byte salt
  and the 12-byte IV it draws) ends in an error exactly when the score of the passphrase
  it reads is below 2.
\<close>
theorem strength_policy:
  "(length p < 6 \<longrightarrow>
      score (checkPasswordStrength p) = 0 \<and> text_label (checkPasswordStrength p) = ''Too Short'')
   \<and> (6 \<le> length p \<longrightarrow>
      score (checkPasswordStrength p) =
        1 + of_bool (12 \<le> length p)
          + of_bool (\<exists>c \<in> set p. 0x61 \<le> c \<and> c \<le> 0x7A)
          + of_bool (\<exists>c \<in> set p. 0x41 \<le> c \<and> c \<le> 0x5A)
          + of_bool (\<exists>c \<in> set p. 0x30 \<le> c \<and> c \<le> 0x39)
          + of_bool (\<exists>c \<in> set p. \<not> (0x41 \<le> c \<and> c \<le> 0x5A \<or> 0x61 \<le> c \<and> c \<le> 0x7A
                                     \<or> 0x30 \<le> c \<and> c \<le> 0x39))
      \<and> text_label (checkPasswordStrength p) =
          (if score (checkPasswordStrength p) < 2 then ''Weak''
           else if score (checkPasswordStrength p) < 5 then ''Medium'' else ''Strong''))
   \<and> (length salt = 16 \<and> length iv = 12 \<longrightarrow>
      (isl (encryptAudioToImage W field salt iv a)
         \<longleftrightarrow> score (checkPasswordStrength (getUserSecretKey field)) < 2))"
proof -
  have cls: "test_lower p \<longleftrightarrow> (\<exists>c \<in> set p. 0x61 \<le> c \<and> c \<le> 0x7A)"
    "test_upper p \<longleftrightarrow> (\<exists>c \<in> set p. 0x41 \<le> c \<and> c \<le> 0x5A)"
    "test_digit p \<longleftrightarrow> (\<exists>c \<in> set p. 0x30 \<le> c \<and> c \<le> 0x39)"
    "test_other p \<longleftrightarrow> (\<exists>c \<in> set p. \<not> (0x41 \<le> c \<and> c \<le> 0x5A \<or> 0x61 \<le> c \<and> c \<le> 0x7A
                                     \<or> 0x30 \<le> c \<and> c \<le> 0x39))"
    by (simp_all add: test_lower_def test_upper_def test_digit_def test_other_def list_ex_iff
        is_lower_def is_upper_def is_digit_def)
  have "length p < 6 \<longrightarrow>
      score (checkPasswordStrength p) = 0 \<and> text_label (checkPasswordStrength p) = ''Too Short''"
    by (simp add: score_eq label_eq)
  moreover have "6 \<le> length p \<longrightarrow>
      score (checkPasswordStrength p) =
        1 + of_bool (12 \<le> length p) + of_bool (test_lower p) + of_bool (test_upper p)
          + of_bool (test_digit p) + of_bool (test_other p)
      \<and> text_label (checkPasswordStrength p) =
          (if score (checkPasswordStrength p) < 2 then ''Weak''
           else if score (checkPasswordStrength p) < 5 then ''Medium'' else ''Strong'')"
    using score_eq[of p] label_eq[of p] by simp
  moreover have "length salt = 16 \<and> length iv = 12 \<longrightarrow>
      (isl (encryptAudioToImage W field salt iv a)
         \<longleftrightarrow> score (checkPasswordStrength (getUserSecretKey field)) < 2)"
    using encrypt_gate[of salt iv W field a] by blast
  ultimately show ?thesis unfolding cls by blast
qed

lemma js_example: "js ''Tr0ub4dor&3'' = [84, 114, 48, 117, 98, 52, 100, 111, 114, 38, 51]"
  by (simp add: js_def)

lemma pass_example: "getUserSecretKey (js ''Tr0ub4dor&3'') = js ''Tr0ub4dor&3''"
  by (simp add: getUserSecretKey_def js_trim_def is_js_space_def js_example)

lemma score_example: "score (checkPasswordStrength (js ''Tr0ub4dor&3'')) = 5"
  by (simp add: score_eq js_example test_lower_def test_upper_def test_digit_def test_other_def
      is_lower_def is_upper_def is_digit_def)

lemma example_lengths: "length example_salt = 16" "length example_iv = 12"
  by (simp_all add: example_salt_def example_iv_def)

theorem strength_policy_witness:
  "length (js ''abc12'') < 6 \<and> score (checkPasswordStrength (js ''abc12'')) = 0
   \<and> 6 \<le> length (js ''Tr0ub4dor&3'') \<and> score (checkPasswordStrength (js ''Tr0ub4dor&3'')) = 5
   \<and> text_label (checkPasswordStrength (js ''Tr0ub4dor&3'')) = ''Strong''
   \<and> length example_salt = 16 \<and> length example_iv = 12
   \<and> \<not> isl (encryptAudioToImage toy_platform (js ''Tr0ub4dor&3'') example_salt example_iv
              \<lparr>sampleRate = 44100, channelData = [0]\<rparr>)
   \<and> isl (encryptAudioToImage toy_platform (js ''abc12'') example_salt example_iv
              \<lparr>sampleRate = 44100, channelData = [0]\<rparr>)"
proof -
  have short: "length (js ''abc12'') < 6" "length (getUserSecretKey (js ''abc12'')) < 6"
    by (simp_all add: js_def getUserSecretKey_def js_trim_def is_js_space_def)
  have long: "6 \<le> length (js ''Tr0ub4dor&3'')" by (simp add: js_def)
  note a = strength_policy[of "js ''abc12''" example_salt example_iv toy_platform "js ''abc12''"
      "\<lparr>sampleRate = 44100, channelData = [0]\<rparr>"]
  note b = strength_policy[of "js ''Tr0ub4dor&3''" example_salt example_iv toy_platform
      "js ''Tr0ub4dor&3''" "\<lparr>sampleRate = 44100, channelData = [0]\<rparr>"]
  have "score (checkPasswordStrength (getUserSecretKey (js ''abc12''))) = 0"
    using short(2) by (simp add: score_eq)
  then show ?thesis
    using a b short long example_lengths score_example pass_example by simp
qed

text \<open>
  Claim C10. The score is never 1: it is 0 exactly for passphrases shorter than 6 code
  units and at least 2 for all others, because a passphrase of at least 6 code units
  contains a code unit, and that code unit earns one of the four class points. The level
  Weak is therefore never reported, and encryption rejects exactly the passphrases
  (as read from the key field) shorter than 6 code units.
\<close>
theorem score_never_one:
  "score (checkPasswordStrength p) \<noteq> 1
   \<and> (score (checkPasswordStrength p) = 0 \<longleftrightarrow> length p < 6)
   \<and> (2 \<le> score (checkPasswordStrength p) \<longleftrightarrow> 6 \<le> length p)
   \<and> (6 \<le> length p \<longrightarrow>
        test_lower p \<or> test_upper p \<or> test_digit p \<or> test_other p)
   \<and> text_label (checkPasswordStrength p) \<noteq> ''Weak''
   \<and> (length salt = 16 \<and> length iv = 12 \<longrightarrow>
        (isl (encryptAudioToImage W field salt iv a) \<longleftrightarrow> length (getUserSecretKey field) < 6))"
proof -
  note z = score_zero_or_two[of p] score_zero_or_two[of "getUserSecretKey field"]
  have "score (checkPasswordStrength p) \<noteq> 1" using z(1) by (cases "length p < 6") auto
  moreover have "score (checkPasswordStrength p) = 0 \<longleftrightarrow> length p < 6"
    using z(1) by (cases "length p < 6") auto
  moreover have "2 \<le> score (checkPasswordStrength p) \<longleftrightarrow> 6 \<le> length p"
    using z(1) by (cases "length p < 6") auto
  moreover have "text_label (checkPasswordStrength p) \<noteq> ''Weak''"
    using z(1) by (cases "length p < 6") (auto simp add: label_eq)
  moreover have "length salt = 16 \<and> length iv = 12 \<longrightarrow>
        (isl (encryptAudioToImage W field salt iv a) \<longleftrightarrow> length (getUserSecretKey field) < 6)"
    using encrypt_gate[of salt iv W field a] z(2)
    by (cases "length (getUserSecretKey field) < 6") auto
  moreover have "6 \<le> length p \<longrightarrow>
        test_lower p \<or> test_upper p \<or> test_digit p \<or> test_other p"
  proof
    assume "6 \<le> length p"
    then have "p \<noteq> []" by auto
    then show "test_lower p \<or> test_upper p \<or> test_digit p \<or> test_other p"
      by (rule some_class)
  qed
  ultimately show ?thesis by blast
qed

theorem score_never_one_witness:
  "length example_salt = 16 \<and> length example_iv = 12
   \<and> score (checkPasswordStrength (js ''aaaaaa'')) = 2
   \<and> text_label (checkPasswordStrength (js ''aaaaaa'')) = ''Medium''
   \<and> \<not> length (getUserSecretKey (js ''aaaaaa'')) < 6
   \<and> \<not> isl (encryptAudioToImage toy_platform (js ''aaaaaa'') example_salt example_iv
              \<lparr>sampleRate = 44100, channelData = [0]\<rparr>)"
proof -
  have p: "getUserSecretKey (js ''aaaaaa'') = js ''aaaaaa''" "length (js ''aaaaaa'') = 6"
    by (simp_all add: js_def getUserSecretKey_def js_trim_def is_js_space_def)
  have s: "score (checkPasswordStrength (js ''aaaaaa'')) = 2"
    by (simp add: score_eq js_def test_lower_def test_upper_def test_digit_def test_other_def
      is_lower_def is_upper_def is_digit_def)
  show ?thesis
    using score_never_one[of "js ''aaaaaa''" example_salt example_iv toy_platform "js ''aaaaaa''"
      "\<lparr>sampleRate = 44100, channelData = [0]\<rparr>"] p s example_lengths
    by (simp add: label_eq)
qed

subsection \<open>The whole pipeline\<close>

lemma buffer_of_length: "length (buffer_of xs) = 4 * length xs"
  by (induction xs) (simp_all add: buffer_of_def float32_le_def)

lemma floats_of_buffer_of: "floats_of (buffer_of xs) = xs"
  by (induction xs) (simp_all add: buffer_of_def float32_le_def uint32_of_bytes)

lemma prefix_field:
  assumes "take n U = P" "j + k \<le> n"
  shows "take k (drop j U) = take k (drop j P)"
proof -
  have "take k (drop j P) = take k (take (n - j) (drop j U))"
    unfolding assms(1)[symmetric] by (simp add: drop_take)
  also have "\<dots> = take k (drop j U)" using assms(2) by (simp add: min_def)
  finally show ?thesis by simp
qed

lemma parse_framed:
  assumes U: "take (length P) U = P" "length P \<le> length U"
    and P: "P = salt @ iv @ uint32_bytes (of_nat (length c)) @ uint32_bytes (of_nat r) @ c"
    and len: "length salt = 16" "length iv = 12" "length c < 2 ^ 32" "r < 2 ^ 32"
  shows "parsePayload U =
           Inr \<lparr>p_salt = salt, p_iv = iv, p_ciphertextLength = length c, p_sampleRate = r,
                p_cipher = c\<rparr>"
proof -
  note f = frame_fields[OF len(1,2) uint32_bytes_length uint32_bytes_length,
      of "of_nat (length c)" "of_nat r" c, folded P]
  have n: "length P = 36 + length c" by (rule f(6))
  have "take 16 U = take 16 (drop 0 P)" using prefix_field[OF U(1), of 0 16] n by simp
  then have a: "take 16 U = salt" using f(1) by simp
  have b: "take 12 (drop 16 U) = iv" using prefix_field[OF U(1), of 16 12] n f(2) by simp
  have "take 4 (drop 28 U) = uint32_bytes (of_nat (length c))"
    using prefix_field[OF U(1), of 28 4] n f(3) by simp
  then have c: "be_value (take 4 (drop 28 U)) = length c"
    using len(3) by (simp add: be_value_of_nat)
  have "take 4 (drop 32 U) = uint32_bytes (of_nat r)"
    using prefix_field[OF U(1), of 32 4] n f(4) by simp
  then have d: "be_value (take 4 (drop 32 U)) = r"
    using len(4) by (simp add: be_value_of_nat)
  have "take (length c) (drop 36 U) = take (length c) (drop 36 P)"
    using prefix_field[OF U(1), of 36 "length c"] n by simp
  then have e: "take (length c) (drop 36 U) = c" using f(5) by simp
  have l: "\<not> length U < 36" "\<not> length U < 36 + length c" using U(2) n by simp_all
  show ?thesis
    unfolding parsePayload_eq[of U] c d by (simp only: a b e l if_False)
qed

lemma decrypt_steps:
  assumes "getUserSecretKey field \<noteq> []" "0 < width canvas" "0 < height canvas"
    and "parsePayload (unpackPixels (data canvas)) = Inr hdr"
  shows "decryptImageToAudio W field canvas =
           (case aes_gcm_decrypt W (deriveKey W (getUserSecretKey field) (p_salt hdr))
                   (p_iv hdr) (p_cipher hdr) of
              None \<Rightarrow> Inl DecryptionFailed
            | Some plain \<Rightarrow>
                if length plain mod 4 \<noteq> 0 then Inl RangeError
                else if p_sampleRate hdr = 0 \<or> 192000 < p_sampleRate hdr
                then Inl (InvalidSampleRate (p_sampleRate hdr))
                else if plain = [] \<or> \<not> rate_supported W (p_sampleRate hdr)
                then Inl NotSupportedError
                else Inr \<lparr>sampleRate = p_sampleRate hdr, channelData = floats_of plain\<rparr>)"
proof -
  have len: "length (floats_of plain) = length plain div 4" for plain
    by (induction plain rule: floats_of.induct) simp_all
  have nonempty: "length plain mod 4 = 0 \<Longrightarrow> floats_of plain = [] \<longleftrightarrow> plain = []" for plain
    using len[of plain] by (cases plain) auto
  show ?thesis
    using assms
    by (auto simp add: decryptImageToAudio_def getImageData_def Let_def new_Float32Array_def
        createBuffer_def copyToChannel_def nonempty split: option.splits)
qed

text \<open>
  Authenticated decryption itself is the platform's. What the script adds to it is that a
  rejected ciphertext ends \<open>decryptImageToAudio\<close> in the decryption failure, never in
  audio.
\<close>

lemma rejected_decryption:
  assumes "getUserSecretKey field \<noteq> []" "0 < width canvas" "0 < height canvas"
    and "parsePayload (unpackPixels (data canvas)) = Inr hdr"
    and "aes_gcm_decrypt W (deriveKey W (getUserSecretKey field) (p_salt hdr))
           (p_iv hdr) (p_cipher hdr) = None"
  shows "decryptImageToAudio W field canvas = Inl DecryptionFailed"
  unfolding decrypt_steps[OF assms(1-4)] using assms(5) by simp

text \<open>
  Claim C1. On a platform whose AES-GCM decrypts what it encrypted under the same key and
  nonce, for a passphrase whose score is at least 2, a fresh 16-byte salt and 12-byte IV,
  and a single-channel audio buffer (an audio buffer has at least one frame, and a rate
  the platform supports) with a sample rate in (0, 192000] whose ciphertext fits the
  32-bit length field: encryption returns an image, and decrypting that image with the
  same passphrase returns the original buffer, the same sample bit patterns and the same
  sample rate.
\<close>
theorem encrypt_decrypt_roundtrip:
  assumes aead: "\<forall>key nonce plain. aes_gcm_decrypt W key nonce (aes_gcm_encrypt W key nonce plain) = Some plain"
    and len: "length salt = 16" "length iv = 12"
    and strong: "2 \<le> score (checkPasswordStrength (getUserSecretKey field))"
    and audio: "channelData a \<noteq> []" "0 < sampleRate a" "sampleRate a \<le> 192000"
      "rate_supported W (sampleRate a)"
    and fits: "length (aes_gcm_encrypt W (deriveKey W (getUserSecretKey field) salt) iv
                 (buffer_of (channelData a))) < 2 ^ 32"
  shows "\<exists>canvas. encryptAudioToImage W field salt iv a = Inr canvas
           \<and> decryptImageToAudio W field canvas = Inr a"
proof -
  define key where "key = deriveKey W (getUserSecretKey field) salt"
  define c where "c = aes_gcm_encrypt W key iv (buffer_of (channelData a))"
  define P where "P = salt @ iv @ uint32_bytes (of_nat (length c))
                        @ uint32_bytes (of_nat (sampleRate a)) @ c"
  have enc: "encryptAudioToImage W field salt iv a = packPixels P"
    unfolding P_def c_def key_def using len strong by (rule encrypt_accepts)
  have "P \<noteq> []" using len(1) by (auto simp add: P_def)
  from packPixels_unpack[OF this] obtain canvas where
    g: "packPixels P = Inr canvas" "0 < width canvas" "0 < height canvas"
       "length P \<le> width canvas * height canvas * 3"
       "length (unpackPixels (data canvas)) = width canvas * height canvas * 3"
       "take (length P) (unpackPixels (data canvas)) = P"
    by blast
  have pass: "getUserSecretKey field \<noteq> []" using strong by (auto simp add: score_eq)
  have r: "sampleRate a < 2 ^ 32" using audio(3) by simp
  have hdr: "parsePayload (unpackPixels (data canvas)) =
               Inr \<lparr>p_salt = salt, p_iv = iv, p_ciphertextLength = length c,
                    p_sampleRate = sampleRate a, p_cipher = c\<rparr>"
    using g(6) _ P_def len fits[folded key_def, folded c_def] r
    by (rule parse_framed) (simp add: g(4,5))
  have dec: "aes_gcm_decrypt W key iv c = Some (buffer_of (channelData a))"
    unfolding c_def using aead by blast
  have ne: "buffer_of (channelData a) \<noteq> []"
    using audio(1) buffer_of_length[of "channelData a"] by (cases "channelData a") auto
  have "decryptImageToAudio W field canvas = Inr a"
    unfolding decrypt_steps[OF pass g(2,3) hdr]
    using audio ne by (simp add: key_def[symmetric] dec buffer_of_length floats_of_buffer_of)
  with enc g(1) show ?thesis by simp
qed

lemma pass_nonempty: "getUserSecretKey (js ''Tr0ub4dor&3'') \<noteq> []"
  unfolding pass_example by (simp add: js_example)

theorem encrypt_decrypt_roundtrip_witness:
  "(\<forall>key nonce plain. aes_gcm_decrypt toy_platform key nonce
        (aes_gcm_encrypt toy_platform key nonce plain) = Some plain)
   \<and> length example_salt = 16 \<and> length example_iv = 12
   \<and> 2 \<le> score (checkPasswordStrength (getUserSecretKey (js ''Tr0ub4dor&3'')))
   \<and> rate_supported toy_platform 44100
   \<and> (\<exists>canvas. encryptAudioToImage toy_platform (js ''Tr0ub4dor&3'') example_salt example_iv
                    \<lparr>sampleRate = 44100, channelData = [0x3F800000, 0xBF000000]\<rparr> = Inr canvas
         \<and> decryptImageToAudio toy_platform (js ''Tr0ub4dor&3'') canvas
             = Inr \<lparr>sampleRate = 44100, channelData = [0x3F800000, 0xBF000000]\<rparr>)"
proof -
  let ?a = "\<lparr>sampleRate = 44100, channelData = [0x3F800000, 0xBF000000]\<rparr>"
  have aead: "\<forall>key nonce plain. aes_gcm_decrypt toy_platform key nonce
        (aes_gcm_encrypt toy_platform key nonce plain) = Some plain"
    by (simp add: toy_roundtrip)
  have strong: "2 \<le> score (checkPasswordStrength (getUserSecretKey (js ''Tr0ub4dor&3'')))"
    by (simp add: pass_example score_example)
  have audio: "channelData ?a \<noteq> []" "0 < sampleRate ?a" "sampleRate ?a \<le> 192000"
    "rate_supported toy_platform (sampleRate ?a)"
    by simp_all
  have fits: "length (aes_gcm_encrypt toy_platform
      (deriveKey toy_platform (getUserSecretKey (js ''Tr0ub4dor&3'')) example_salt) example_iv
      (buffer_of (channelData ?a))) < 2 ^ 32"
    by (simp add: toy_length buffer_of_length)
  show ?thesis
    using encrypt_decrypt_roundtrip[OF aead example_lengths strong audio fits]
      aead example_lengths strong audio(4)
    by simp
qed

text \<open>
  Claim C5, as the code has it. The sample rate is checked last: after the header checks,
  after key derivation and authenticated decryption, and after the plaintext is viewed as
  32-bit floats. For an image whose header parses and whose sample-rate field (bytes 32-35,
  big-endian) is 0 or exceeds 192000, decryption never returns audio: it fails as the
  decryption failure when authenticated decryption rejects the ciphertext, and as the
  format error for an invalid sample rate when decryption succeeds (with a plaintext that
  is a whole number of samples).
\<close>
theorem sample_rate_checked_after_decryption:
  assumes "getUserSecretKey field \<noteq> []" "0 < width canvas" "0 < height canvas"
    and "parsePayload (unpackPixels (data canvas)) = Inr hdr"
    and "p_sampleRate hdr = 0 \<or> 192000 < p_sampleRate hdr"
  shows "p_sampleRate hdr = be_value (take 4 (drop 32 (unpackPixels (data canvas))))
       \<and> decryptImageToAudio W field canvas =
           (case aes_gcm_decrypt W (deriveKey W (getUserSecretKey field) (p_salt hdr))
                   (p_iv hdr) (p_cipher hdr) of
              None \<Rightarrow> Inl DecryptionFailed
            | Some plain \<Rightarrow> if length plain mod 4 \<noteq> 0 then Inl RangeError
                            else Inl (InvalidSampleRate (p_sampleRate hdr)))
       \<and> isl (decryptImageToAudio W field canvas)
       \<and> kind_of (InvalidSampleRate (p_sampleRate hdr)) = FormatError"
proof -
  have "p_sampleRate hdr = be_value (take 4 (drop 32 (unpackPixels (data canvas))))"
    using assms(4) unfolding parsePayload_eq[of "unpackPixels (data canvas)"]
    by (auto split: if_splits)
  moreover have "decryptImageToAudio W field canvas =
           (case aes_gcm_decrypt W (deriveKey W (getUserSecretKey field) (p_salt hdr))
                   (p_iv hdr) (p_cipher hdr) of
              None \<Rightarrow> Inl DecryptionFailed
            | Some plain \<Rightarrow> if length plain mod 4 \<noteq> 0 then Inl RangeError
                            else Inl (InvalidSampleRate (p_sampleRate hdr)))"
    unfolding decrypt_steps[OF assms(1-4)] using assms(5) by (auto split: option.splits)
  moreover from this have "isl (decryptImageToAudio W field canvas)"
    by (simp split: option.splits)
  ultimately show ?thesis by simp
qed

lemma rate0_parse:
  "parsePayload (unpackPixels (data rate0_canvas)) =
     Inr \<lparr>p_salt = example_salt, p_iv = example_iv, p_ciphertextLength = 20, p_sampleRate = 0,
          p_cipher = drop 36 rate0_payload\<rparr>"
proof -
  have "be_value (take 4 (drop 28 (rate0_payload @ [0, 0, 0, 0]))) = 20"
    "be_value (take 4 (drop 32 (rate0_payload @ [0, 0, 0, 0]))) = 0"
    by (simp_all add: rate0_payload_def be_value_def)
  then show ?thesis
    unfolding rate0_unpack parsePayload_eq
    by (simp add: rate0_payload_def example_salt_def example_iv_def)
qed

lemma key_example:
  "deriveKey toy_platform (js ''Tr0ub4dor&3'') example_salt =
     [84, 114, 48, 117, 98, 52, 100, 111, 114, 38, 51] @ example_salt"
  by (simp add: deriveKey_def js_example)

lemma rate0_decrypt:
  "toy_decrypt (deriveKey toy_platform (js ''Tr0ub4dor&3'') example_salt) example_iv
     (drop 36 rate0_payload) = Some [0, 0, 0, 0]"
  unfolding key_example
  by (simp add: example_salt_def example_iv_def rate0_payload_def toy_decrypt_def toy_tag_def
      replicate_16)

theorem sample_rate_checked_after_decryption_witness:
  "getUserSecretKey (js ''Tr0ub4dor&3'') \<noteq> [] \<and> 0 < width rate0_canvas \<and> 0 < height rate0_canvas
   \<and> be_value (take 4 (drop 32 (unpackPixels (data rate0_canvas)))) = 0
   \<and> decryptImageToAudio toy_platform (js ''Tr0ub4dor&3'') rate0_canvas = Inl (InvalidSampleRate 0)"
proof -
  have h: "getUserSecretKey (js ''Tr0ub4dor&3'') \<noteq> []" "0 < width rate0_canvas"
    "0 < height rate0_canvas"
    by (simp_all add: pass_nonempty rate0_canvas_def)
  show ?thesis
    using sample_rate_checked_after_decryption[OF h rate0_parse, of toy_platform] h
    by (simp add: pass_example rate0_decrypt)
qed

lemma blank_parse:
  "parsePayload (unpackPixels (data blank_canvas)) =
     Inr \<lparr>p_salt = replicate 16 0, p_iv = replicate 12 0, p_ciphertextLength = 0,
          p_sampleRate = 0, p_cipher = []\<rparr>"
proof -
  have r: "replicate 36 (0::byte) = replicate 16 0 @ replicate 12 0 @ [0, 0, 0, 0] @ [0, 0, 0, 0]"
    by (simp add: numeral_eq_Suc)
  have "be_value (take 4 (drop 28 (replicate 36 0))) = 0"
    "be_value (take 4 (drop 32 (replicate 36 0))) = 0"
    unfolding r by (simp_all add: be_value_def)
  then show ?thesis
    unfolding blank_unpack parsePayload_eq by (simp add: r)
qed

text \<open>
  The blank image declares an empty ciphertext and the sample rate 0. A ciphertext
  shorter than the 16-byte tag is rejected by decryption, so the result is the decryption
  failure and the sample rate is never looked at.
\<close>

theorem sample_rate_zero_counterexample:
  "be_value (take 4 (drop 32 (unpackPixels (data blank_canvas)))) = 0
   \<and> decryptImageToAudio toy_platform (js ''Tr0ub4dor&3'') blank_canvas = Inl DecryptionFailed
   \<and> kind_of DecryptionFailed \<noteq> FormatError"
proof -
  have h: "getUserSecretKey (js ''Tr0ub4dor&3'') \<noteq> []" "0 < width blank_canvas"
    "0 < height blank_canvas"
    by (simp_all add: pass_nonempty blank_canvas_def)
  have "be_value (take 4 (drop 32 (unpackPixels (data blank_canvas)))) = 0"
    unfolding blank_unpack by (simp add: be_value_def numeral_eq_Suc)
  then show ?thesis
    unfolding decrypt_steps[OF h blank_parse] by (simp add: toy_short)
qed

subsection \<open>The length of the payload\<close>

text \<open>
  Claim C9, with the arithmetic of its example put right. On a platform whose AES-GCM
  ciphertext is 16 bytes (the tag) longer than the plaintext, encrypting \<open>n\<close> audio
  samples (4 bytes each) gives a payload of \<open>36 + 4 * n + 16\<close> bytes, and the image
  has at least \<open>ceil (length / 3)\<close> pixels. For 44100 samples that is 176452 bytes and
  at least 58818 pixels.
\<close>
theorem payload_length_with_tag:
  assumes tag: "\<forall>key nonce plain. length (aes_gcm_encrypt W key nonce plain) = length plain + 16"
    and len: "length salt = 16" "length iv = 12"
    and strong: "2 \<le> score (checkPasswordStrength (getUserSecretKey field))"
  shows "\<exists>payload canvas.
           assemblePayload salt iv
             (aes_gcm_encrypt W (deriveKey W (getUserSecretKey field) salt) iv
                (buffer_of (channelData a))) (sampleRate a) = Inr payload
         \<and> encryptAudioToImage W field salt iv a = Inr canvas
         \<and> length (buffer_of (channelData a)) = 4 * length (channelData a)
         \<and> length payload = 36 + 4 * length (channelData a) + 16
         \<and> nat \<lceil>real (length payload) / 3\<rceil> \<le> width canvas * height canvas
         \<and> (length (channelData a) = 44100 \<longrightarrow>
               length payload = 176452 \<and> nat \<lceil>real (length payload) / 3\<rceil> = 58818
               \<and> 58818 \<le> width canvas * height canvas)"
proof -
  define c where "c = aes_gcm_encrypt W (deriveKey W (getUserSecretKey field) salt) iv
                (buffer_of (channelData a))"
  define P where "P = salt @ iv @ uint32_bytes (of_nat (length c))
                        @ uint32_bytes (of_nat (sampleRate a)) @ c"
  have asm: "assemblePayload salt iv c (sampleRate a) = Inr P"
    unfolding P_def using len by (rule assemblePayload_eq)
  have enc: "encryptAudioToImage W field salt iv a = packPixels P"
    unfolding P_def c_def using len strong by (rule encrypt_accepts)
  have clen: "length c = 4 * length (channelData a) + 16"
    unfolding c_def using tag by (simp add: buffer_of_length)
  have plen: "length P = 36 + 4 * length (channelData a) + 16"
    using len clen by (simp add: P_def uint32_bytes_length)
  have "P \<noteq> []" using len(1) by (auto simp add: P_def)
  note pk = packPixels_eq[OF this]
  define canvas where "canvas = \<lparr>width = nat \<lceil>sqrt (real ((length P + 2) div 3))\<rceil>,
     height = nat \<lceil>real ((length P + 2) div 3) / real (nat \<lceil>sqrt (real ((length P + 2) div 3))\<rceil>)\<rceil>,
     data = pack_loop P ((length P + 2) div 3)
       (replicate (4 * nat \<lceil>sqrt (real ((length P + 2) div 3))\<rceil> *
          nat \<lceil>real ((length P + 2) div 3) / real (nat \<lceil>sqrt (real ((length P + 2) div 3))\<rceil>)\<rceil>) 0) 0 0\<rparr>"
  have n3: "nat \<lceil>real (length P) / 3\<rceil> = (length P + 2) div 3"
    using ceil_div3[of "length P"] by (simp add: BYTES_PER_PIXEL_def)
  have cap: "nat \<lceil>real (length P) / 3\<rceil> \<le> width canvas * height canvas"
    unfolding n3 using pk(5) by (simp add: canvas_def)
  have conc: "length (channelData a) = 44100 \<longrightarrow>
               length P = 176452 \<and> nat \<lceil>real (length P) / 3\<rceil> = 58818
               \<and> 58818 \<le> width canvas * height canvas"
  proof
    assume "length (channelData a) = 44100"
    then have l: "length P = 176452" using plen by simp
    then have "nat \<lceil>real (length P) / 3\<rceil> = 58818" unfolding n3 by simp
    with l cap show "length P = 176452 \<and> nat \<lceil>real (length P) / 3\<rceil> = 58818
               \<and> 58818 \<le> width canvas * height canvas" by simp
  qed
  have "encryptAudioToImage W field salt iv a = Inr canvas"
    unfolding enc pk(1) canvas_def ..
  with asm plen cap conc show ?thesis
    unfolding c_def[symmetric] by (intro exI[of _ P] exI[of _ canvas]) (simp add: buffer_of_length)
qed

theorem payload_length_with_tag_witness:
  "(\<forall>key nonce plain. length (aes_gcm_encrypt toy_platform key nonce plain) = length plain + 16)
   \<and> length example_salt = 16 \<and> length example_iv = 12
   \<and> 2 \<le> score (checkPasswordStrength (getUserSecretKey (js ''Tr0ub4dor&3'')))
   \<and> length (channelData \<lparr>sampleRate = 44100, channelData = replicate 44100 0\<rparr>) = 44100
   \<and> (\<exists>payload canvas.
         assemblePayload example_salt example_iv
           (aes_gcm_encrypt toy_platform
              (deriveKey toy_platform (getUserSecretKey (js ''Tr0ub4dor&3'')) example_salt) example_iv
              (buffer_of (replicate 44100 0))) 44100 = Inr payload
         \<and> encryptAudioToImage toy_platform (js ''Tr0ub4dor&3'') example_salt example_iv
              \<lparr>sampleRate = 44100, channelData = replicate 44100 0\<rparr> = Inr canvas
         \<and> length payload = 176452 \<and> 58818 \<le> width canvas * height canvas)"
proof -
  have tag: "\<forall>key nonce plain. length (aes_gcm_encrypt toy_platform key nonce plain) = length plain + 16"
    by (simp add: toy_length)
  have strong: "2 \<le> score (checkPasswordStrength (getUserSecretKey (js ''Tr0ub4dor&3'')))"
    by (simp add: pass_example score_example)
  have n: "length (channelData \<lparr>sampleRate = 44100, channelData = replicate 44100 (0::float32)\<rparr>) = 44100"
    by simp
  from payload_length_with_tag[OF tag example_lengths strong,
      of "\<lparr>sampleRate = 44100, channelData = replicate 44100 0\<rparr>"]
  obtain payload canvas where
    "assemblePayload example_salt example_iv
           (aes_gcm_encrypt toy_platform
              (deriveKey toy_platform (getUserSecretKey (js ''Tr0ub4dor&3'')) example_salt) example_iv
              (buffer_of (replicate 44100 0))) 44100 = Inr payload"
    "encryptAudioToImage toy_platform (js ''Tr0ub4dor&3'') example_salt example_iv
              \<lparr>sampleRate = 44100, channelData = replicate 44100 0\<rparr> = Inr canvas"
    "length payload = 176452" "58818 \<le> width canvas * height canvas"
    using n by auto
  then show ?thesis using tag example_lengths strong n by blast
qed

text \<open>
  For 44100 samples and a 16-byte tag the payload has \<open>36 + 176400 + 16 = 176452\<close>
  bytes, not 176532, and needs 58818 pixels, not 58844.
\<close>

theorem payload_44100_counterexample:
  "length (aes_gcm_encrypt toy_platform
             (deriveKey toy_platform (js ''Tr0ub4dor&3'') example_salt) example_iv
             (buffer_of (replicate 44100 0))) = 4 * 44100 + 16
   \<and> map_sum id length
         (assemblePayload example_salt example_iv
            (aes_gcm_encrypt toy_platform
               (deriveKey toy_platform (js ''Tr0ub4dor&3'') example_salt) example_iv
               (buffer_of (replicate 44100 0))) 44100) = Inr 176452
   \<and> (176452 :: nat) \<noteq> 176532
   \<and> nat \<lceil>real 176452 / 3\<rceil> = 58818"
  by (simp add: assemblePayload_eq example_lengths toy_length buffer_of_length
      uint32_bytes_length)

end
